theory Spec2Isabelle
  imports Complex_Main
begin

section \<open>Tensors and errors\<close>

text \<open>
  The model of \<^verbatim>\<open>models/transformer_other.py\<close>.  A tensor is a nested list of
  reals: a vector \<open>[dim]\<close>, a sequence of vectors \<open>[n, dim]\<close>, a batch of sequences
  \<open>[batch, n, dim]\<close>.  Arithmetic is that of the real numbers, but for the
  exponential of the softmax, which underflows to zero as in \<^verbatim>\<open>float32\<close>.  Every \<^verbatim>\<open>raise\<close> and
  \<^verbatim>\<open>assert\<close> of the source is a branch returning \<open>Inl\<close>; so are the reshape of
  \<^verbatim>\<open>_split_heads\<close>, the squeeze of the zero-layer bypass and the division by zero of
  the timing signal.  Operands are otherwise taken to be of consistent shapes.
\<close>

type_synonym vec = "real list"
type_synonym mat = "real list list"
type_synonym tensor3 = "real list list list"

datatype error =
    Exception string
  | ValueError
  | ZeroDivisionError
  | AssertionError
  | ReshapeError
  | SqueezeError
  | IndexError
  | NotANumber

definition ebind :: "error + 'a \<Rightarrow> ('a \<Rightarrow> error + 'b) \<Rightarrow> error + 'b" where
  "ebind m f = (case m of Inl e \<Rightarrow> Inl e | Inr x \<Rightarrow> f x)"

definition vadd :: "vec \<Rightarrow> vec \<Rightarrow> vec" where
  "vadd u v = map2 (+) u v"

definition smul :: "real \<Rightarrow> vec \<Rightarrow> vec" where
  "smul c v = map ((*) c) v"

definition zeros :: "nat \<Rightarrow> vec" where
  "zeros n = replicate n 0"

text \<open>\<open>vecmat v W n\<close> is the product of the row vector \<open>v\<close> with the matrix \<open>W\<close> of
  \<open>n\<close> columns, given as the list of its rows.\<close>

fun vecmat :: "vec \<Rightarrow> mat \<Rightarrow> nat \<Rightarrow> vec" where
  "vecmat (x # xs) (r # rs) n = vadd (smul x r) (vecmat xs rs n)"
| "vecmat _ _ n = zeros n"

section \<open>Dense\<close>

text \<open>
  Modelled from the spec: the class \<^verbatim>\<open>Dense\<close> of \<^verbatim>\<open>lib.layers\<close> is not among the
  sources.  The spec calls it an affine projection with optional activation, whose
  weight and bias may be given at construction (shared with or sliced from another
  projection).  It is applied to the trailing axis, position by position.
\<close>

record dense =
  dense_W :: mat
  dense_b :: vec
  out_size :: nat
  activation :: "real \<Rightarrow> real"

definition dense_vec :: "dense \<Rightarrow> vec \<Rightarrow> vec" where
  "dense_vec d v = map (activation d) (vadd (vecmat v (dense_W d) (out_size d)) (dense_b d))"

definition dense_call :: "dense \<Rightarrow> tensor3 \<Rightarrow> tensor3" where
  "dense_call d x = map (map (dense_vec d)) x"

section \<open>MultiHeadAttn: construction\<close>

text \<open>
  \<^verbatim>\<open>MultiHeadAttn.__init__\<close>.  The values of the variables that the constructor
  creates are arguments: \<open>var_W nm\<close> and \<open>var_b nm\<close> are the weight and bias of the
  \<^verbatim>\<open>Dense\<close> created under the name \<open>nm\<close> without \<^verbatim>\<open>W=\<close> and \<^verbatim>\<open>b=\<close>.
\<close>

record multi_head_attn =
  attn_name :: string
  key_depth :: nat
  value_depth :: nat
  num_heads :: nat
  attn_dropout :: real
  attn_value_dropout :: real
  attn_format :: string
  query_conv :: dense
  kv_conv :: dense
  combined_conv :: dense
  out_conv :: dense

definition MultiHeadAttn_init ::
  "(string \<Rightarrow> mat) \<Rightarrow> (string \<Rightarrow> vec) \<Rightarrow> string \<Rightarrow> nat \<Rightarrow> nat \<Rightarrow> nat \<Rightarrow> nat \<Rightarrow> nat
     \<Rightarrow> real \<Rightarrow> real \<Rightarrow> string \<Rightarrow> error + multi_head_attn" where
  "MultiHeadAttn_init var_W var_b nm inp_size kd vd output_depth nh ad avd fmt =
    (if fmt = ''use_kv'' then
       (let q = \<lparr>dense_W = var_W ''query_conv'', dense_b = var_b ''query_conv'', out_size = kd,
                 activation = (\<lambda>x. x)\<rparr>;
            kv = \<lparr>dense_W = var_W ''mem_conv'', dense_b = var_b ''mem_conv'', out_size = kd + vd,
                  activation = (\<lambda>x. x)\<rparr>;
            c = \<lparr>dense_W = map2 (@) (dense_W q) (dense_W kv), dense_b = dense_b q @ dense_b kv, out_size = kd * 2 + vd,
                 activation = (\<lambda>x. x)\<rparr>
        in Inr \<lparr>attn_name = nm, key_depth = kd, value_depth = vd, num_heads = nh,
                attn_dropout = ad, attn_value_dropout = avd, attn_format = fmt,
                query_conv = q, kv_conv = kv, combined_conv = c,
                out_conv = \<lparr>dense_W = var_W ''out_conv'', dense_b = var_b ''out_conv'',
                            out_size = output_depth, activation = (\<lambda>x. x)\<rparr>\<rparr>)
     else if fmt = ''combined'' then
       (let c = \<lparr>dense_W = var_W ''mem_conv'', dense_b = var_b ''mem_conv'', out_size = kd * 2 + vd,
                 activation = (\<lambda>x. x)\<rparr>;
            q = \<lparr>dense_W = map (take kd) (dense_W c), dense_b = take kd (dense_b c), out_size = kd,
                 activation = (\<lambda>x. x)\<rparr>;
            kv = \<lparr>dense_W = map (drop kd) (dense_W c), dense_b = drop kd (dense_b c), out_size = kd + vd,
                  activation = (\<lambda>x. x)\<rparr>
        in Inr \<lparr>attn_name = nm, key_depth = kd, value_depth = vd, num_heads = nh,
                attn_dropout = ad, attn_value_dropout = avd, attn_format = fmt,
                query_conv = q, kv_conv = kv, combined_conv = c,
                out_conv = \<lparr>dense_W = var_W ''out_conv'', dense_b = var_b ''out_conv'',
                            out_size = output_depth, activation = (\<lambda>x. x)\<rparr>\<rparr>)
     else Inl (Exception (''Unexpected format: '' @ fmt)))"

section \<open>Transformer: validation of the hyperparameters\<close>

text \<open>
  \<^verbatim>\<open>Transformer.__init__\<close> up to the first \<^verbatim>\<open>tf.variable_scope\<close>: the part that
  runs before any layer is constructed.  \<open>py_int\<close> stands for Python's \<^verbatim>\<open>int\<close> on a
  string (\<open>None\<close> where it raises \<^verbatim>\<open>ValueError\<close>); \<open>n_args\<close> is the number of
  positional arguments caught by \<^verbatim>\<open>*_args\<close>.  An optional size that is \<^verbatim>\<open>None\<close> or
  zero is falsy and falls back to \<open>hid_size\<close>.
\<close>

datatype ff_size = FF_None | FF_Int int | FF_Str string | FF_List "int list"

record transformer_args =
  arg_n_args :: nat
  arg_emb_size :: "int option"
  arg_hid_size :: int
  arg_key_size :: "int option"
  arg_value_size :: "int option"
  arg_ff_size :: ff_size
  arg_num_heads :: int

record transformer_sizes =
  sz_emb_size :: int
  sz_key_size :: int
  sz_value_size :: int
  sz_ff_size :: ff_size

fun split_colon :: "string \<Rightarrow> string list" where
  "split_colon [] = [[]]"
| "split_colon (c # cs) =
     (if c = CHR '':'' then [] # split_colon cs
      else (case split_colon cs of p # ps \<Rightarrow> (c # p) # ps | [] \<Rightarrow> [[c]]))"

fun those_ints :: "int option list \<Rightarrow> int list option" where
  "those_ints [] = Some []"
| "those_ints (None # _) = None"
| "those_ints (Some i # xs) = (case those_ints xs of None \<Rightarrow> None | Some l \<Rightarrow> Some (i # l))"

definition truthy_or :: "int option \<Rightarrow> int \<Rightarrow> int" where
  "truthy_or x d = (case x of None \<Rightarrow> d | Some v \<Rightarrow> if v = 0 then d else v)"

definition py_mod :: "int \<Rightarrow> int \<Rightarrow> error + int" where
  "py_mod a m = (if m = 0 then Inl ZeroDivisionError else Inr (a mod m))"

definition Transformer_init_sizes ::
  "(string \<Rightarrow> int option) \<Rightarrow> transformer_args \<Rightarrow> error + transformer_sizes" where
  "Transformer_init_sizes py_int a =
    ebind (case arg_ff_size a of
             FF_Str s \<Rightarrow> (case those_ints (map py_int (split_colon s)) of
                            None \<Rightarrow> Inl ValueError | Some l \<Rightarrow> Inr (FF_List l))
           | f \<Rightarrow> Inr f)
     (\<lambda>ff.
       if arg_n_args a \<noteq> 0 then Inl (Exception ''Unexpected positional arguments'')
       else
         (let emb_size = truthy_or (arg_emb_size a) (arg_hid_size a);
              key_size = truthy_or (arg_key_size a) (arg_hid_size a);
              value_size = truthy_or (arg_value_size a) (arg_hid_size a)
          in ebind (py_mod key_size (arg_num_heads a)) (\<lambda>km.
               if km \<noteq> 0 then Inl (Exception ''Bad number of heads'')
               else ebind (py_mod value_size (arg_num_heads a)) (\<lambda>vm.
                 if vm \<noteq> 0 then Inl (Exception ''Bad number of heads'')
                 else Inr \<lparr>sz_emb_size = emb_size, sz_key_size = key_size,
                           sz_value_size = value_size, sz_ff_size = ff\<rparr>))))"

section \<open>Random source and dropout\<close>

text \<open>
  The random operations of a call draw from an explicit source: \<open>rnd site ix\<close> is the
  uniform draw in \<open>[0, 1)\<close> of the random operation \<open>site\<close> for the element with
  index \<open>ix\<close>.  \<^verbatim>\<open>tf.nn.dropout(x, keep_prob)\<close> computes
  \<^verbatim>\<open>x / keep_prob * floor(keep_prob + uniform)\<close> and rejects a \<open>keep_prob\<close> outside
  \<open>(0, 1]\<close>.  The flag that \<^verbatim>\<open>dropout_scope\<close> sets and \<^verbatim>\<open>is_dropout_enabled\<close> reads is
  the boolean argument \<open>is_drop\<close> of every layer.
\<close>

type_synonym rand_src = "string \<Rightarrow> nat list \<Rightarrow> real"

definition dropout_vec :: "rand_src \<Rightarrow> string \<Rightarrow> real \<Rightarrow> nat list \<Rightarrow> vec \<Rightarrow> vec" where
  "dropout_vec rnd site keep ix v =
     map2 (\<lambda>j x. x / keep * of_int \<lfloor>keep + rnd site (ix @ [j])\<rfloor>) [0..<length v] v"

definition dropout_mat :: "rand_src \<Rightarrow> string \<Rightarrow> real \<Rightarrow> nat list \<Rightarrow> mat \<Rightarrow> mat" where
  "dropout_mat rnd site keep ix m =
     map2 (\<lambda>i v. dropout_vec rnd site keep (ix @ [i]) v) [0..<length m] m"

definition dropout_t3 :: "rand_src \<Rightarrow> string \<Rightarrow> real \<Rightarrow> nat list \<Rightarrow> tensor3 \<Rightarrow> tensor3" where
  "dropout_t3 rnd site keep ix x =
     map2 (\<lambda>i m. dropout_mat rnd site keep (ix @ [i]) m) [0..<length x] x"

definition tf_dropout :: "rand_src \<Rightarrow> string \<Rightarrow> real \<Rightarrow> tensor3 \<Rightarrow> error + tensor3" where
  "tf_dropout rnd site keep x =
     (if 0 < keep \<and> keep \<le> 1 then Inr (dropout_t3 rnd site keep [] x) else Inl ValueError)"

section \<open>Broadcasting\<close>

text \<open>An axis of size one is repeated along the other operand's axis.\<close>

definition bcast2 :: "('a \<Rightarrow> 'b \<Rightarrow> 'c) \<Rightarrow> 'a list \<Rightarrow> 'b list \<Rightarrow> 'c list" where
  "bcast2 f xs ys =
     (if length xs = 1 then map (f (hd xs)) ys
      else if length ys = 1 then map (\<lambda>x. f x (hd ys)) xs
      else map2 f xs ys)"

definition ninp_of :: "'a list list \<Rightarrow> nat" where
  "ninp_of x = (case x of [] \<Rightarrow> 0 | r # _ \<Rightarrow> length r)"

section \<open>Positional signal\<close>

text \<open>
  \<^verbatim>\<open>Transformer._add_timing_signal\<close>.  \<open>ninp\<close> and \<open>hid\<close> are \<^verbatim>\<open>tf.shape(inp)[1]\<close> and
  \<^verbatim>\<open>tf.shape(inp)[2]\<close>.  The offset is a Python number, a tensor of rank 0, 1 or 2, or
  the string \<^verbatim>\<open>'random'\<close>; in the last case the drawn tensor has the rank 3 of
  \<open>position\<close> and the assertion on the rank fails.  With \<open>hid div 2 = 1\<close> the increment
  is a division by zero and every timescale is \<open>0 * inf\<close>, which is not a number.
\<close>

datatype offset_arg =
    Off_num real
  | Off_tensor0 real
  | Off_tensor1 "real list"
  | Off_tensor2 "real list list"
  | Off_random

definition positions :: "nat \<Rightarrow> offset_arg \<Rightarrow> int list option \<Rightarrow> error + real list list" where
  "positions ninp off inp_reverse =
     (let position = map real [0..<ninp] in
      ebind (case off of
               Off_random \<Rightarrow> Inl AssertionError
             | Off_num c \<Rightarrow> Inr [map (\<lambda>p. p + c) position]
             | Off_tensor0 c \<Rightarrow> Inr [map (\<lambda>p. p + c) position]
             | Off_tensor1 v \<Rightarrow> Inr (map (\<lambda>c. map (\<lambda>p. p + c) position) v)
             | Off_tensor2 m \<Rightarrow> Inr (map (\<lambda>r. bcast2 (+) position r) m))
        (\<lambda>pos. Inr (case inp_reverse of
                       None \<Rightarrow> pos
                     | Some r \<Rightarrow> bcast2 (\<lambda>row s. map (\<lambda>p. p * s) row) pos
                                  (map (\<lambda>x. if x = 0 then 1 else - 1) r))))"

definition inv_timescales :: "nat \<Rightarrow> real \<Rightarrow> real \<Rightarrow> error + vec" where
  "inv_timescales hid min_timescale max_timescale =
     (let num_timescales = hid div 2 in
      if min_timescale = 0 then Inl ZeroDivisionError
      else if max_timescale / min_timescale \<le> 0 then Inl ValueError
      else if num_timescales = 1 then Inl NotANumber
      else Inr (map (\<lambda>i. min_timescale *
                        exp (real i * - (ln (max_timescale / min_timescale)
                                          / (real num_timescales - 1))))
                  [0..<num_timescales]))"

definition signal_row :: "vec \<Rightarrow> nat \<Rightarrow> real \<Rightarrow> vec" where
  "signal_row ts hid p =
     map (\<lambda>w. sin (p * w)) ts @ map (\<lambda>w. cos (p * w)) ts @ zeros (hid mod 2)"

definition timing_signal ::
  "nat \<Rightarrow> nat \<Rightarrow> real \<Rightarrow> real \<Rightarrow> offset_arg \<Rightarrow> int list option \<Rightarrow> error + tensor3" where
  "timing_signal ninp hid min_timescale max_timescale off inp_reverse =
     ebind (positions ninp off inp_reverse) (\<lambda>pos.
     ebind (inv_timescales hid min_timescale max_timescale) (\<lambda>ts.
     Inr (map (map (signal_row ts hid)) pos)))"

definition add_timing_signal ::
  "tensor3 \<Rightarrow> nat \<Rightarrow> nat \<Rightarrow> real \<Rightarrow> real \<Rightarrow> offset_arg \<Rightarrow> int list option
     \<Rightarrow> error + tensor3" where
  "add_timing_signal inp ninp hid min_timescale max_timescale off inp_reverse =
     ebind (timing_signal ninp hid min_timescale max_timescale off inp_reverse) (\<lambda>signal.
     Inr (bcast2 (map2 vadd) inp signal))"

section \<open>Attention masks\<close>

text \<open>
  A mask of shape \<open>[batch or 1, 1, n_q or 1, n_kv]\<close> is the list, per batch row, of
  its rows per query; the head axis of size one is left out.
\<close>

type_synonym mask = "real list list list"

definition make_enc_attn_mask :: "int list list \<Rightarrow> int list \<Rightarrow> mask" where
  "make_enc_attn_mask inp inp_len =
     map (\<lambda>l. [map (\<lambda>j. if int j < l then 1 else 0) [0..<ninp_of inp]]) inp_len"

definition make_dec_attn_mask :: "int list list \<Rightarrow> mask" where
  "make_dec_attn_mask out =
     (let n = ninp_of out in
      [map (\<lambda>i. map (\<lambda>j. if j \<le> i then 1 else 0) [0..<n]) [0..<n]])"

section \<open>MultiHeadAttn: the call\<close>

definition ATTN_BIAS_VALUE :: real where
  "ATTN_BIAS_VALUE = - 1000000000"

definition dot :: "vec \<Rightarrow> vec \<Rightarrow> real" where
  "dot u v = sum_list (map2 (*) u v)"

text \<open>
  \<^verbatim>\<open>tf.nn.softmax\<close> on a row of \<^verbatim>\<open>float32\<close> logits subtracts the maximum of the row,
  exponentiates and divides by the sum.  In \<^verbatim>\<open>float32\<close> the exponential of an argument
  below \<open>- 104\<close> is zero: \<open>exp (- 104)\<close> is less than \<open>2 ^ - 150\<close>, half the least
  positive number of the format.  This underflow is the one effect of the number format
  that the model keeps; without it no softmax weight would be zero.
\<close>

definition EXP_UNDERFLOW :: real where
  "EXP_UNDERFLOW = - 104"

definition float_exp :: "real \<Rightarrow> real" where
  "float_exp x = (if x < EXP_UNDERFLOW then 0 else exp x)"

definition softmax :: "vec \<Rightarrow> vec" where
  "softmax l =
     (if l = [] then []
      else (let e = map (\<lambda>x. float_exp (x - Max (set l))) l
            in map (\<lambda>x. x / sum_list e) e))"

definition head_slice :: "nat \<Rightarrow> nat \<Rightarrow> vec \<Rightarrow> vec" where
  "head_slice nh h v = (let s = length v div nh in take s (drop (h * s) v))"

text \<open>\<^verbatim>\<open>_split_heads\<close> and \<^verbatim>\<open>_combine_heads\<close> on one batch row:
  \<open>[n, dim]\<close> to \<open>[heads, n, dim / heads]\<close> and back.\<close>

definition split_heads :: "nat \<Rightarrow> mat \<Rightarrow> mat list" where
  "split_heads nh x = map (\<lambda>h. map (head_slice nh h) x) [0..<nh]"

definition combine_heads :: "mat list \<Rightarrow> mat" where
  "combine_heads x = map concat (transpose x)"

text \<open>Lines 149 to 158 on one batch row: the scaled scores with the additive bias,
  \<open>[heads, n_q, n_kv]\<close>, and their softmax over the key axis.\<close>

definition attn_bias :: "real list list \<Rightarrow> real list list" where
  "attn_bias m = map (map (\<lambda>x. ATTN_BIAS_VALUE * (1 - x))) m"

definition attn_scores :: "multi_head_attn \<Rightarrow> mat \<Rightarrow> mat \<Rightarrow> tensor3" where
  "attn_scores a q k =
     (let key_depth_per_head = real (key_depth a) / real (num_heads a);
          qh = map (map (map (\<lambda>x. x / sqrt key_depth_per_head))) (split_heads (num_heads a) q);
          kh = split_heads (num_heads a) k
      in map2 (\<lambda>qs ks. map (\<lambda>qv. map (dot qv) ks) qs) qh kh)"

definition attn_logits :: "multi_head_attn \<Rightarrow> mat \<Rightarrow> mat \<Rightarrow> real list list \<Rightarrow> tensor3" where
  "attn_logits a q k m =
     map (\<lambda>s. bcast2 (bcast2 (+)) s (attn_bias m)) (attn_scores a q k)"

definition attn_weights :: "multi_head_attn \<Rightarrow> mat \<Rightarrow> mat \<Rightarrow> real list list \<Rightarrow> tensor3" where
  "attn_weights a q k m = map (map softmax) (attn_logits a q k m)"

definition attn_row ::
  "bool \<Rightarrow> rand_src \<Rightarrow> multi_head_attn \<Rightarrow> nat \<Rightarrow> mat \<Rightarrow> mat \<Rightarrow> mat \<Rightarrow> real list list \<Rightarrow> mat" where
  "attn_row is_drop rnd a bi q k v m =
     (let weights = attn_weights a q k m;
          weights = (if is_drop
                     then dropout_t3 rnd (attn_name a @ ''/weights'') (1 - attn_dropout a) [bi] weights
                     else weights);
          x = map2 (\<lambda>ws vs. map (\<lambda>w. vecmat w vs (value_depth a div num_heads a)) ws)
                weights (split_heads (num_heads a) v)
      in combine_heads x)"

definition valid_keep :: "bool \<Rightarrow> real \<Rightarrow> error + unit" where
  "valid_keep is_drop keep = (if is_drop \<and> \<not> (0 < keep \<and> keep \<le> 1) then Inl ValueError else Inr ())"

text \<open>A mask with a batch axis of size one is repeated for every batch row.\<close>

definition expand_mask :: "nat \<Rightarrow> mask \<Rightarrow> mask" where
  "expand_mask n m = (if length m = 1 then replicate n (hd m) else m)"

text \<open>Lines 135 to 144: the query, key and value projections.\<close>

definition attn_qkv ::
  "multi_head_attn \<Rightarrow> tensor3 \<Rightarrow> tensor3 option \<Rightarrow> tensor3 option
     \<Rightarrow> error + tensor3 \<times> tensor3 \<times> tensor3" where
  "attn_qkv a query_inp kv_inp kv =
     (case (kv_inp, kv) of
        (Some _, Some _) \<Rightarrow> Inl AssertionError
      | (None, None) \<Rightarrow>
          (let combined = dense_call (combined_conv a) query_inp
           in Inr (map (map (take (key_depth a))) combined,
                   map (map (\<lambda>r. take (key_depth a) (drop (key_depth a) r))) combined,
                   map (map (\<lambda>r. take (value_depth a) (drop (key_depth a * 2) r)))
                     combined))
      | (Some x, None) \<Rightarrow>
          (let kv1 = dense_call (kv_conv a) x
           in Inr (dense_call (query_conv a) query_inp,
                   map (map (take (key_depth a))) kv1,
                   map (map (\<lambda>r. take (value_depth a) (drop (key_depth a) r))) kv1))
      | (None, Some kv1) \<Rightarrow>
          Inr (dense_call (query_conv a) query_inp,
               map (map (take (key_depth a))) kv1,
               map (map (\<lambda>r. take (value_depth a) (drop (key_depth a) r))) kv1))"

text \<open>Lines 145 to 172: heads, weights, weighted values and the output projection.
  In \<^verbatim>\<open>_split_heads\<close> the static size \<^verbatim>\<open>dim_size // self.num_heads\<close> divides by
  zero for no heads, and the reshape to \<^verbatim>\<open>[..., num_heads, -1]\<close> fails for a depth
  that is not a multiple of the head count.\<close>

definition attn_apply ::
  "bool \<Rightarrow> rand_src \<Rightarrow> multi_head_attn \<Rightarrow> mask \<Rightarrow> tensor3 \<Rightarrow> tensor3 \<Rightarrow> tensor3
     \<Rightarrow> error + tensor3" where
  "attn_apply is_drop rnd a attn_mask q k v =
     (if num_heads a = 0 then Inl ZeroDivisionError
      else if key_depth a mod num_heads a \<noteq> 0 \<or> value_depth a mod num_heads a \<noteq> 0
      then Inl ReshapeError
      else
        ebind (valid_keep is_drop (1 - attn_dropout a)) (\<lambda>_.
          (let masks = expand_mask (length q) attn_mask;
               combined_x = map (\<lambda>(bi, qb, kb, vb, mb). attn_row is_drop rnd a bi qb kb vb mb)
                              (zip [0..<length q] (zip q (zip k (zip v masks))))
           in ebind (if is_drop
                     then tf_dropout rnd (attn_name a @ ''/values'')
                            (1 - attn_value_dropout a) combined_x
                     else Inr combined_x)
                (\<lambda>combined_x. Inr (dense_call (out_conv a) combined_x)))))"

definition MultiHeadAttn_call ::
  "bool \<Rightarrow> rand_src \<Rightarrow> multi_head_attn \<Rightarrow> tensor3 \<Rightarrow> mask \<Rightarrow> tensor3 option \<Rightarrow> tensor3 option
     \<Rightarrow> error + tensor3" where
  "MultiHeadAttn_call is_drop rnd a query_inp attn_mask kv_inp kv =
     ebind (attn_qkv a query_inp kv_inp kv)
       (\<lambda>(q, k, v). attn_apply is_drop rnd a attn_mask q k v)"

section \<open>FFN\<close>

record ffn =
  ffn_name :: string
  relu_dropout :: real
  first_conv :: dense
  second_conv :: dense

definition FFN_call :: "bool \<Rightarrow> rand_src \<Rightarrow> ffn \<Rightarrow> tensor3 \<Rightarrow> error + tensor3" where
  "FFN_call is_drop rnd f inputs =
     (let hidden = dense_call (first_conv f) inputs in
      ebind (if is_drop then tf_dropout rnd (ffn_name f) (1 - relu_dropout f) hidden
             else Inr hidden)
        (\<lambda>hidden. Inr (dense_call (second_conv f) hidden)))"

section \<open>ResidualLayerWrapper\<close>

text \<open>
  Modelled from the spec: the class \<^verbatim>\<open>ResidualLayerWrapper\<close> of \<^verbatim>\<open>lib.layers\<close> is not
  among the sources, and neither is \<^verbatim>\<open>LayerNorm\<close>.  The spec describes a wrapper that
  applies around the inner layer an ordered pipeline of steps, each present or not:
  pre-normalize the input, then after the inner layer dropout, add the block's input,
  post-normalize; \<^verbatim>\<open>preprocess\<close> applies the pre-normalize step only.  A normalization
  is a function on the trailing axis, applied position by position.
\<close>

datatype res_step = Res_dropout | Res_add | Res_norm

record 'l residual_layer_wrapper =
  rw_name :: string
  wrapped_layer :: 'l
  pre_norm :: "(vec \<Rightarrow> vec) option"
  post_steps :: "res_step list"
  post_norm :: "vec \<Rightarrow> vec"
  rw_dropout :: real

definition preprocess :: "'l residual_layer_wrapper \<Rightarrow> tensor3 \<Rightarrow> tensor3" where
  "preprocess w inp = (case pre_norm w of None \<Rightarrow> inp | Some f \<Rightarrow> map (map f) inp)"

fun postprocess ::
  "bool \<Rightarrow> rand_src \<Rightarrow> 'l residual_layer_wrapper \<Rightarrow> res_step list \<Rightarrow> tensor3 \<Rightarrow> tensor3
     \<Rightarrow> error + tensor3" where
  "postprocess is_drop rnd w [] out inp = Inr out"
| "postprocess is_drop rnd w (Res_dropout # ss) out inp =
     (if is_drop
      then (case tf_dropout rnd (rw_name w) (1 - rw_dropout w) out of
              Inl e \<Rightarrow> Inl e
            | Inr out1 \<Rightarrow> postprocess is_drop rnd w ss out1 inp)
      else postprocess is_drop rnd w ss out inp)"
| "postprocess is_drop rnd w (Res_add # ss) out inp =
     postprocess is_drop rnd w ss (map2 (map2 vadd) out inp) inp"
| "postprocess is_drop rnd w (Res_norm # ss) out inp =
     postprocess is_drop rnd w ss (map (map (post_norm w)) out) inp"

definition wrapper_call ::
  "bool \<Rightarrow> rand_src \<Rightarrow> 'l residual_layer_wrapper \<Rightarrow> (tensor3 \<Rightarrow> error + tensor3) \<Rightarrow> tensor3
     \<Rightarrow> error + tensor3" where
  "wrapper_call is_drop rnd w inner inp =
     ebind (inner (preprocess w inp)) (\<lambda>out. postprocess is_drop rnd w (post_steps w) out inp)"

section \<open>Transformer\<close>

text \<open>
  The layers that \<^verbatim>\<open>Transformer.__init__\<close> builds are the fields of the record.  The
  class \<^verbatim>\<open>Embedding\<close> of \<^verbatim>\<open>lib.layers\<close> is not among the sources: an embedding is the
  function from a token id to its row.  \<open>emb_inp_bias\<close> is \<open>None\<close> for the constant 0.
\<close>

record transformer =
  tr_name :: string
  num_layers_enc :: nat
  num_layers_dec :: nat
  res_dropout :: real
  emb_size :: nat
  hid_size :: nat
  rescale_emb :: bool
  dst_reverse :: bool
  dst_rand_offset :: bool
  normalize_out :: bool
  emb_inp :: "int \<Rightarrow> vec"
  emb_out :: "int \<Rightarrow> vec"
  emb_inp_bias :: "vec option"
  enc_attn :: "multi_head_attn residual_layer_wrapper list"
  enc_ffn :: "ffn residual_layer_wrapper list"
  enc_out_norm :: "vec \<Rightarrow> vec"
  dec_attn :: "multi_head_attn residual_layer_wrapper list"
  dec_enc_attn :: "multi_head_attn residual_layer_wrapper list"
  dec_ffn :: "ffn residual_layer_wrapper list"
  dec_out_norm :: "vec \<Rightarrow> vec"

definition min_timescale_default :: real where
  "min_timescale_default = 1"

definition max_timescale_default :: real where
  "max_timescale_default = 10000"

definition rescale :: "transformer \<Rightarrow> tensor3 \<Rightarrow> tensor3" where
  "rescale t e =
     (if rescale_emb t then map (map (smul (sqrt (real (emb_size t))))) e else e)"

fun enc_layers ::
  "bool \<Rightarrow> rand_src \<Rightarrow> transformer \<Rightarrow> mask \<Rightarrow> nat list \<Rightarrow> tensor3 \<Rightarrow> error + tensor3" where
  "enc_layers is_drop rnd t m [] x = Inr x"
| "enc_layers is_drop rnd t m (layer # ls) x =
     (if layer < length (enc_attn t) \<and> layer < length (enc_ffn t) then
        (case wrapper_call is_drop rnd (enc_attn t ! layer)
                (\<lambda>q. MultiHeadAttn_call is_drop rnd (wrapped_layer (enc_attn t ! layer))
                        q m None None) x of
           Inl e \<Rightarrow> Inl e
         | Inr x1 \<Rightarrow>
             (case wrapper_call is_drop rnd (enc_ffn t ! layer)
                     (FFN_call is_drop rnd (wrapped_layer (enc_ffn t ! layer))) x1 of
                Inl e \<Rightarrow> Inl e
              | Inr x2 \<Rightarrow> enc_layers is_drop rnd t m ls x2))
      else Inl IndexError)"

definition Transformer_encode ::
  "rand_src \<Rightarrow> transformer \<Rightarrow> int list list \<Rightarrow> int list \<Rightarrow> bool \<Rightarrow> error + tensor3 \<times> mask" where
  "Transformer_encode rnd t inp inp_len is_train =
     (let e = rescale t (map (map (emb_inp t)) inp);
          e = (case emb_inp_bias t of None \<Rightarrow> e
               | Some bias \<Rightarrow> map (map (\<lambda>v. vadd v bias)) e);
          m = make_enc_attn_mask inp inp_len
      in ebind (add_timing_signal e (ninp_of inp) (emb_size t) min_timescale_default
                  max_timescale_default (Off_num 0) None) (\<lambda>enc_inp.
         ebind (if is_train
                then tf_dropout rnd (tr_name t @ ''_enc'') (1 - res_dropout t) enc_inp
                else Inr enc_inp) (\<lambda>enc_inp.
         ebind (enc_layers is_train rnd t m [0..<num_layers_enc t] enc_inp) (\<lambda>enc_inp.
         Inr (if normalize_out t then map (map (enc_out_norm t)) enc_inp else enc_inp, m)))))"

text \<open>Line 392: pad one zero vector in front along the time axis, drop the last
  position.\<close>

definition shift_right :: "nat \<Rightarrow> tensor3 \<Rightarrow> tensor3" where
  "shift_right width e = map (\<lambda>s. butlast (zeros width # s)) e"

definition vsum :: "vec list \<Rightarrow> vec" where
  "vsum vs = (case vs of [] \<Rightarrow> [] | v # r \<Rightarrow> foldl vadd v r)"

text \<open>
  The bypass for a decoder of zero layers (lines 404 to 406 and 616 to 618).  The mask
  \<open>[batch, 1, 1, ninp]\<close> is transposed to \<open>[ninp, 1, 1, batch]\<close> and its last axis
  squeezed, which needs a batch of one; the product with the encoder output broadcasts
  to \<open>[ninp, ninp, hid]\<close>, and its mean over the first two axes is added to every
  position.
\<close>

definition bypass :: "tensor3 \<Rightarrow> mask \<Rightarrow> tensor3 \<Rightarrow> error + tensor3" where
  "bypass e_out e_mask dec_inp =
     (if length e_mask \<noteq> 1 then Inl SqueezeError
      else
        (let inp_mask = concat (hd e_mask);
             prod = bcast2 (\<lambda>s c. map (smul c) s) e_out inp_mask;
             cells = concat prod
         in if cells = [] then Inl NotANumber
            else Inr (map (map (\<lambda>v. vadd v (smul (1 / real (length cells)) (vsum cells))))
                        dec_inp)))"

fun dec_layers_batch ::
  "bool \<Rightarrow> rand_src \<Rightarrow> transformer \<Rightarrow> mask \<Rightarrow> mask \<Rightarrow> tensor3 \<Rightarrow> nat list \<Rightarrow> tensor3
     \<Rightarrow> error + tensor3" where
  "dec_layers_batch is_drop rnd t dm em e_out [] x = Inr x"
| "dec_layers_batch is_drop rnd t dm em e_out (layer # ls) x =
     (if layer < length (dec_attn t) \<and> layer < length (dec_enc_attn t)
          \<and> layer < length (dec_ffn t) then
        (case wrapper_call is_drop rnd (dec_attn t ! layer)
                (\<lambda>q. MultiHeadAttn_call is_drop rnd (wrapped_layer (dec_attn t ! layer))
                        q dm None None) x of
           Inl e \<Rightarrow> Inl e
         | Inr x1 \<Rightarrow>
             (case wrapper_call is_drop rnd (dec_enc_attn t ! layer)
                     (\<lambda>q. MultiHeadAttn_call is_drop rnd
                             (wrapped_layer (dec_enc_attn t ! layer)) q em (Some e_out) None)
                     x1 of
                Inl e \<Rightarrow> Inl e
              | Inr x2 \<Rightarrow>
                  (case wrapper_call is_drop rnd (dec_ffn t ! layer)
                          (FFN_call is_drop rnd (wrapped_layer (dec_ffn t ! layer))) x2 of
                     Inl e \<Rightarrow> Inl e
                   | Inr x3 \<Rightarrow> dec_layers_batch is_drop rnd t dm em e_out ls x3)))
      else Inl IndexError)"

definition decode_input :: "transformer \<Rightarrow> int list list \<Rightarrow> tensor3" where
  "decode_input t out = shift_right (emb_size t) (rescale t (map (map (emb_out t)) out))"

text \<open>Lines 399 to 418 of \<^verbatim>\<open>Transformer.decode\<close>: dropout, the bypass, the decoder
  layers and the output normalization, applied to the input with its positional
  signal.\<close>

definition decoder_stack ::
  "rand_src \<Rightarrow> transformer \<Rightarrow> mask \<Rightarrow> tensor3 \<Rightarrow> mask \<Rightarrow> bool \<Rightarrow> tensor3
     \<Rightarrow> error + tensor3" where
  "decoder_stack rnd t dm e_out e_mask is_train dec_inp =
     ebind (if is_train
            then tf_dropout rnd (tr_name t @ ''_dec'') (1 - res_dropout t) dec_inp
            else Inr dec_inp) (\<lambda>dec_inp.
     ebind (if num_layers_dec t = 0 then bypass e_out e_mask dec_inp else Inr dec_inp)
       (\<lambda>dec_inp.
     ebind (dec_layers_batch is_train rnd t dm e_mask e_out [0..<num_layers_dec t] dec_inp)
       (\<lambda>dec_inp.
     Inr (if normalize_out t then map (map (dec_out_norm t)) dec_inp else dec_inp))))"

text \<open>Lines 386 to 398: the embedded targets are shifted, the causal mask is made and
  the positional signal is added; then the stack runs.\<close>

definition Transformer_decode ::
  "rand_src \<Rightarrow> transformer \<Rightarrow> int list list \<Rightarrow> int list \<Rightarrow> int list \<Rightarrow> tensor3 \<Rightarrow> mask
     \<Rightarrow> bool \<Rightarrow> error + tensor3" where
  "Transformer_decode rnd t out out_len out_reverse e_out e_mask is_train =
     (let e = decode_input t out;
          dm = make_dec_attn_mask out;
          off = (if dst_rand_offset t then Off_random else Off_num 0)
      in ebind (add_timing_signal e (ninp_of out) (emb_size t) min_timescale_default
                  max_timescale_default off (Some out_reverse))
           (decoder_stack rnd t dm e_out e_mask is_train))"

section \<open>Model: the incremental decoder\<close>

text \<open>
  \<^verbatim>\<open>infer_length\<close> of \<^verbatim>\<open>lib.tensor_utils\<close> is not among the sources and is a field of
  the model.  An entry of \<open>attnP\<close> is \<open>None\<close> where the length is zero and the quotient
  infinite.  \<^verbatim>\<open>tf.Print\<close> under \<^verbatim>\<open>debug\<close> is the identity and is left out.
\<close>

record model =
  m_name :: string
  transformer :: transformer
  logits :: dense
  inp_eos :: int
  out_eos :: int
  infer_length :: "int list list \<Rightarrow> int \<Rightarrow> int list"

record dec_state =
  enc_out :: tensor3
  enc_attn_mask :: mask
  attnP :: "real option list list"
  rdo :: "vec list"
  out_seq :: "int list list"
  offset :: "real list"
  emb :: tensor3
  dec_layers :: "tensor3 list"
  dec_enc_kv :: "tensor3 list"
  dec_dec_kv :: "tensor3 list"

text \<open>The loop of lines 628 to 639; the accumulator is \<open>dec_inp_t\<close>,
  \<open>new_dec_layers\<close> and \<open>new_dec_dec_kv\<close>.\<close>

fun dec_layers_step ::
  "bool \<Rightarrow> rand_src \<Rightarrow> transformer \<Rightarrow> dec_state \<Rightarrow> mask \<Rightarrow> nat list
     \<Rightarrow> tensor3 \<times> tensor3 list \<times> tensor3 list
     \<Rightarrow> error + tensor3 \<times> tensor3 list \<times> tensor3 list" where
  "dec_layers_step is_drop rnd t st dm [] acc = Inr acc"
| "dec_layers_step is_drop rnd t st dm (layer # ls) (dec_inp_t, new_dec_layers, new_dec_dec_kv) =
     (if layer < length (dec_attn t) \<and> layer < length (dec_enc_attn t)
          \<and> layer < length (dec_ffn t) \<and> layer < length (dec_dec_kv st)
          \<and> layer < length (dec_enc_kv st) \<and> layer < length (dec_layers st)
          \<and> layer \<le> length new_dec_dec_kv then
        (let next_dec_kv = dense_call (kv_conv (wrapped_layer (dec_attn t ! layer)))
                             (preprocess (dec_attn t ! layer) dec_inp_t);
             kvs = new_dec_dec_kv @ [map2 (@) (dec_dec_kv st ! layer) next_dec_kv]
         in case wrapper_call is_drop rnd (dec_attn t ! layer)
                   (\<lambda>q. MultiHeadAttn_call is_drop rnd (wrapped_layer (dec_attn t ! layer))
                           q dm None (Some (kvs ! layer))) dec_inp_t of
              Inl e \<Rightarrow> Inl e
            | Inr x1 \<Rightarrow>
                (case wrapper_call is_drop rnd (dec_enc_attn t ! layer)
                        (\<lambda>q. MultiHeadAttn_call is_drop rnd
                                (wrapped_layer (dec_enc_attn t ! layer)) q (enc_attn_mask st)
                                None (Some (dec_enc_kv st ! layer))) x1 of
                   Inl e \<Rightarrow> Inl e
                 | Inr x2 \<Rightarrow>
                     (case wrapper_call is_drop rnd (dec_ffn t ! layer)
                             (FFN_call is_drop rnd (wrapped_layer (dec_ffn t ! layer))) x2 of
                        Inl e \<Rightarrow> Inl e
                      | Inr x3 \<Rightarrow>
                          dec_layers_step is_drop rnd t st dm ls
                            (x3, new_dec_layers @ [map2 (@) (dec_layers st ! layer) x3], kvs))))
      else Inl IndexError)"

text \<open>Lines 595 to 607 and 622 to 623 of \<^verbatim>\<open>Model.decode\<close>: the extended output
  sequence, the embedding of the step and the mask of the step, which is the last row
  of the causal mask for the sequence padded by one.\<close>

definition step_seq :: "dec_state \<Rightarrow> int list option \<Rightarrow> int list list" where
  "step_seq st words =
     (case words of None \<Rightarrow> out_seq st | Some ws \<Rightarrow> map2 (\<lambda>s x. s @ [x]) (out_seq st) ws)"

definition step_emb :: "transformer \<Rightarrow> dec_state \<Rightarrow> int list option \<Rightarrow> tensor3" where
  "step_emb t st words =
     (case words of None \<Rightarrow> replicate (length (rdo st)) [zeros (emb_size t)]
      | Some ws \<Rightarrow> rescale t (map (\<lambda>x. [emb_out t x]) ws))"

definition step_mask :: "dec_state \<Rightarrow> int list option \<Rightarrow> mask" where
  "step_mask st words =
     map (\<lambda>r. drop (length r - 1) r)
       (make_dec_attn_mask (map (\<lambda>s. s @ [0]) (step_seq st words)))"

definition Model_decode ::
  "rand_src \<Rightarrow> model \<Rightarrow> dec_state \<Rightarrow> int list option \<Rightarrow> bool \<Rightarrow> error + dec_state" where
  "Model_decode rnd M st words is_train =
     (let trans = transformer M in
      ebind (add_timing_signal (step_emb trans st words) 1 (emb_size trans)
               min_timescale_default max_timescale_default (Off_tensor1 (offset st)) None)
        (\<lambda>dec_inp_t.
      ebind (if is_train
             then tf_dropout rnd (tr_name trans) (1 - res_dropout trans) dec_inp_t
             else Inr dec_inp_t) (\<lambda>dec_inp_t.
      ebind (if num_layers_dec trans = 0
             then bypass (enc_out st) (enc_attn_mask st) dec_inp_t
             else Inr dec_inp_t) (\<lambda>dec_inp_t.
      ebind (dec_layers_step is_train rnd trans st (step_mask st words)
               [0..<num_layers_dec trans] (dec_inp_t, [], []))
        (\<lambda>(x, new_dec_layers, new_dec_dec_kv).
          Inr \<lparr>enc_out = enc_out st, enc_attn_mask = enc_attn_mask st, attnP = attnP st,
                rdo = map last (if normalize_out trans
                                then map (map (dec_out_norm trans)) x else x),
                out_seq = step_seq st words, offset = map (\<lambda>c. c + 1) (offset st),
                emb = map2 (@) (emb st) dec_inp_t, dec_layers = new_dec_layers,
                dec_enc_kv = dec_enc_kv st, dec_dec_kv = new_dec_dec_kv\<rparr>)))))"

definition BIG_LEN :: int where
  "BIG_LEN = 32000"

text \<open>\<^verbatim>\<open>tf.random_uniform(shape, minval=-BIG_LEN, maxval=BIG_LEN, dtype=tf.int32)\<close>: the
  integer drawn for the element \<open>i\<close>.\<close>

definition random_offset :: "rand_src \<Rightarrow> nat \<Rightarrow> int" where
  "random_offset rnd i = - BIG_LEN + \<lfloor>rnd ''random_offset'' [i] * real_of_int (2 * BIG_LEN)\<rfloor>"

text \<open>Lines 547 to 575 of \<^verbatim>\<open>Model.encode\<close>: the inputs that seed the
  self-attention caches, and the state handed to the first decode step.\<close>

definition input_layers :: "transformer \<Rightarrow> nat \<Rightarrow> tensor3 list" where
  "input_layers t batch_size =
     [replicate batch_size []]
       @ butlast (replicate (num_layers_dec t) (replicate batch_size []))"

definition initial_offset :: "rand_src \<Rightarrow> transformer \<Rightarrow> nat \<Rightarrow> real list" where
  "initial_offset rnd t batch_size =
     (if dst_rand_offset t
      then map2 (\<lambda>c i. c + real_of_int (random_offset rnd i)) (replicate batch_size 0)
             [0..<batch_size]
      else replicate batch_size 0)"

definition initial_state ::
  "rand_src \<Rightarrow> model \<Rightarrow> int list list \<Rightarrow> int list \<Rightarrow> tensor3 \<Rightarrow> mask \<Rightarrow> dec_state" where
  "initial_state rnd M inp inp_len e_out e_mask =
     (let trans = transformer M;
          ninp = ninp_of inp;
          batch_size = length inp;
          width = (if num_layers_enc trans = 0 then emb_size trans else hid_size trans)
      in \<lparr>enc_out = e_out, enc_attn_mask = e_mask,
            attnP = bcast2 (\<lambda>r l. map (\<lambda>x. if l = 0 then None
                                                 else Some (x / real_of_int l)) r)
                      (replicate batch_size (replicate ninp 1)) inp_len,
            rdo = replicate batch_size (zeros width),
            out_seq = replicate batch_size [],
            offset = initial_offset rnd trans batch_size,
            emb = replicate batch_size [],
            dec_layers = replicate (num_layers_dec trans) (replicate batch_size []),
            dec_enc_kv = map (\<lambda>layer. dense_call (kv_conv (wrapped_layer layer)) e_out)
                           (dec_enc_attn trans),
            dec_dec_kv = map2 (\<lambda>layer x. dense_call (kv_conv (wrapped_layer layer))
                                              (preprocess layer x))
                           (dec_attn trans) (input_layers trans batch_size)\<rparr>)"

definition Model_encode ::
  "rand_src \<Rightarrow> model \<Rightarrow> int list list \<Rightarrow> int list option \<Rightarrow> bool \<Rightarrow> error + dec_state" where
  "Model_encode rnd M inp inp_len_arg is_train =
     (let inp_len = (case inp_len_arg of None \<Rightarrow> infer_length M inp (inp_eos M)
                     | Some l \<Rightarrow> l);
          trans = transformer M
      in ebind (Transformer_encode rnd trans inp inp_len False) (\<lambda>(e_out, e_mask).
           if length (input_layers trans (length inp)) < length (dec_attn trans)
           then Inl IndexError
           else Model_decode rnd M (initial_state rnd M inp inp_len e_out e_mask) None
                  is_train))"

definition symbolic_score ::
  "rand_src \<Rightarrow> model \<Rightarrow> int list list \<Rightarrow> int list list \<Rightarrow> bool \<Rightarrow> error + tensor3" where
  "symbolic_score rnd M inp out is_train =
     (let inp_len = infer_length M inp (inp_eos M);
          out_len = infer_length M out (out_eos M);
          out_reverse = map (\<lambda>_. 0) inp_len
      in ebind (Transformer_encode rnd (transformer M) inp inp_len is_train) (\<lambda>(e_out, e_mask).
         ebind (Transformer_decode rnd (transformer M) out out_len out_reverse e_out e_mask
                  is_train) (\<lambda>r.
         Inr (dense_call (logits M) r))))"

definition get_logits :: "model \<Rightarrow> dec_state \<Rightarrow> vec list" where
  "get_logits M st = map (dense_vec (logits M)) (rdo st)"

section \<open>Shapes\<close>

text \<open>
  \<open>has_shape B n x\<close>: the tensor \<open>x\<close> has \<open>B\<close> batch rows of \<open>n\<close> time-steps each.
  \<open>bsel xs i\<close> is the element that an operand contributes at index \<open>i\<close> of a
  broadcast axis.  \<open>use_kv_shapes\<close> states the declared shapes of the variables of the
  format \<^verbatim>\<open>'use_kv'\<close>: a query weight of \<open>key_depth\<close> columns, with as many rows as the
  key-value weight, and a query bias of \<open>key_depth\<close> entries.
\<close>

definition has_shape :: "nat \<Rightarrow> nat \<Rightarrow> 'a list list \<Rightarrow> bool" where
  "has_shape B n x \<longleftrightarrow> length x = B \<and> list_all (\<lambda>r. length r = n) x"

definition bsel :: "'a list \<Rightarrow> nat \<Rightarrow> 'a" where
  "bsel xs i = (if length xs = 1 then hd xs else xs ! i)"

definition use_kv_shapes :: "(string \<Rightarrow> mat) \<Rightarrow> (string \<Rightarrow> vec) \<Rightarrow> nat \<Rightarrow> bool" where
  "use_kv_shapes var_W var_b kd \<longleftrightarrow>
     length (var_b ''query_conv'') = kd \<and>
     list_all (\<lambda>r. length r = kd) (var_W ''query_conv'') \<and>
     length (var_W ''query_conv'') = length (var_W ''mem_conv'')"

text \<open>
  \<open>heads_ok\<close> is the divisibility that \<^verbatim>\<open>_split_heads\<close> needs.  \<open>mask_ok B n m\<close>:
  the mask \<open>m\<close> broadcasts against scores of \<open>B\<close> batch rows and \<open>n\<close> queries.
  \<open>state_inv B n k s\<close>: in the state \<open>s\<close> of batch size \<open>B\<close>, the caches have \<open>n\<close>
  time-steps and the output sequence has \<open>k\<close> tokens; \<open>caches_cover L s\<close>: there is a
  cache for each of \<open>L\<close> layers.
  \<open>layers_ok\<close>: the layer lists have the declared lengths and divisible depths, as
  \<^verbatim>\<open>Transformer.__init__\<close> builds them, and the timing signal is defined.
\<close>

definition heads_ok :: "multi_head_attn \<Rightarrow> bool" where
  "heads_ok a \<longleftrightarrow>
     num_heads a \<noteq> 0 \<and> key_depth a mod num_heads a = 0
     \<and> value_depth a mod num_heads a = 0"

definition mask_ok :: "nat \<Rightarrow> nat \<Rightarrow> mask \<Rightarrow> bool" where
  "mask_ok B n m \<longleftrightarrow>
     length (expand_mask B m) = B
     \<and> list_all (\<lambda>mb. length mb = 1 \<or> length mb = n) (expand_mask B m)"

definition state_inv :: "nat \<Rightarrow> nat \<Rightarrow> nat \<Rightarrow> dec_state \<Rightarrow> bool" where
  "state_inv B n k s \<longleftrightarrow>
     length (rdo s) = B \<and> length (offset s) = B
     \<and> has_shape B k (out_seq s) \<and> has_shape B n (emb s)
     \<and> list_all (has_shape B n) (dec_layers s)
     \<and> list_all (has_shape B n) (dec_dec_kv s)
     \<and> list_all (\<lambda>c. length c = B) (dec_enc_kv s)
     \<and> mask_ok B 1 (enc_attn_mask s)"

definition caches_cover :: "nat \<Rightarrow> dec_state \<Rightarrow> bool" where
  "caches_cover L s \<longleftrightarrow>
     L \<le> length (dec_layers s) \<and> L \<le> length (dec_dec_kv s) \<and> L \<le> length (dec_enc_kv s)"

definition layers_ok :: "transformer \<Rightarrow> bool" where
  "layers_ok t \<longleftrightarrow>
     length (enc_attn t) = num_layers_enc t \<and> length (enc_ffn t) = num_layers_enc t
     \<and> length (dec_attn t) = num_layers_dec t \<and> length (dec_enc_attn t) = num_layers_dec t
     \<and> length (dec_ffn t) = num_layers_dec t
     \<and> list_all (\<lambda>w. heads_ok (wrapped_layer w)) (enc_attn t)
     \<and> list_all (\<lambda>w. heads_ok (wrapped_layer w)) (dec_attn t)
     \<and> list_all (\<lambda>w. heads_ok (wrapped_layer w)) (dec_enc_attn t)
     \<and> emb_size t div 2 \<noteq> 1"

text \<open>Successive calls of \<^verbatim>\<open>Model.decode\<close>, one per element of the list of words, as
  the caller of the decoder makes them.\<close>

fun decode_calls ::
  "rand_src \<Rightarrow> model \<Rightarrow> dec_state \<Rightarrow> int list list \<Rightarrow> bool \<Rightarrow> error + dec_state" where
  "decode_calls rnd M st [] is_train = Inr st"
| "decode_calls rnd M st (ws # rest) is_train =
     (case Model_decode rnd M st (Some ws) is_train of
        Inl e \<Rightarrow> Inl e
      | Inr st1 \<Rightarrow> decode_calls rnd M st1 rest is_train)"


section \<open>The batch decoder against the incremental one\<close>

text \<open>
  \<open>col p x\<close> is the slice \<^verbatim>\<open>x[:, p:p+1]\<close> of one position.  \<open>attn_out_row\<close> is the
  output of \<^verbatim>\<open>MultiHeadAttn.__call__\<close> before the output projection for one query
  vector \<open>qv\<close>, the keys \<open>k\<close>, the values \<open>v\<close> and the mask row \<open>mrow\<close> of the query:
  per head, the softmax of the biased scaled scores times the values, the heads
  concatenated.
\<close>

definition col :: "nat \<Rightarrow> 'a list list \<Rightarrow> 'a list list" where
  "col p x = map (\<lambda>r. [r ! p]) x"

definition score_row :: "multi_head_attn \<Rightarrow> nat \<Rightarrow> vec \<Rightarrow> mat \<Rightarrow> vec" where
  "score_row a h qv k =
     map (\<lambda>kv. dot (map (\<lambda>x. x / sqrt (real (key_depth a) / real (num_heads a)))
                      (head_slice (num_heads a) h qv))
                 (head_slice (num_heads a) h kv)) k"

definition weight_row :: "multi_head_attn \<Rightarrow> nat \<Rightarrow> vec \<Rightarrow> mat \<Rightarrow> vec \<Rightarrow> vec" where
  "weight_row a h qv k mrow =
     softmax (bcast2 (+) (score_row a h qv k) (map (\<lambda>x. ATTN_BIAS_VALUE * (1 - x)) mrow))"

definition attn_out_row :: "multi_head_attn \<Rightarrow> vec \<Rightarrow> mat \<Rightarrow> mat \<Rightarrow> vec \<Rightarrow> vec" where
  "attn_out_row a qv k v mrow =
     concat (map (\<lambda>h. vecmat (weight_row a h qv k mrow) (map (head_slice (num_heads a) h) v)
                         (value_depth a div num_heads a))
               [0..<num_heads a])"

text \<open>
  \<open>dense_ok\<close>: the weight and the bias of a projection have the declared output size.
  \<open>slices_ok\<close>: the query and key-value projections are the slices at \<open>key_depth\<close> of the
  combined projection, as \<^verbatim>\<open>MultiHeadAttn.__init__\<close> builds them in either format.
  \<open>decoder_wf\<close>: the layers are as \<^verbatim>\<open>Transformer.__init__\<close> builds them.
\<close>

definition dense_ok :: "dense \<Rightarrow> bool" where
  "dense_ok d \<longleftrightarrow>
     list_all (\<lambda>r. length r = out_size d) (dense_W d) \<and> length (dense_b d) = out_size d"

definition slices_ok :: "multi_head_attn \<Rightarrow> bool" where
  "slices_ok a \<longleftrightarrow>
     dense_W (query_conv a) = map (take (key_depth a)) (dense_W (combined_conv a))
     \<and> dense_b (query_conv a) = take (key_depth a) (dense_b (combined_conv a))
     \<and> out_size (query_conv a) = min (key_depth a) (out_size (combined_conv a))
     \<and> activation (query_conv a) = activation (combined_conv a)
     \<and> dense_W (kv_conv a) = map (drop (key_depth a)) (dense_W (combined_conv a))
     \<and> dense_b (kv_conv a) = drop (key_depth a) (dense_b (combined_conv a))
     \<and> out_size (kv_conv a) = out_size (combined_conv a) - key_depth a
     \<and> activation (kv_conv a) = activation (combined_conv a)"

definition decoder_wf :: "transformer \<Rightarrow> bool" where
  "decoder_wf t \<longleftrightarrow>
     layers_ok t
     \<and> list_all (\<lambda>w. slices_ok (wrapped_layer w) \<and> dense_ok (kv_conv (wrapped_layer w)))
         (dec_attn t)"

text \<open>
  The causal mask blocks a key by the finite bias \<open>- 1e9\<close>, so it blocks it only while
  the scores are small against the bias.  \<open>self_scores_bounded w x\<close>: in the
  self-attention layer \<open>w\<close> on the input \<open>x\<close>, every scaled score lies strictly between
  \<open>- SCORE_BOUND\<close> and \<open>SCORE_BOUND\<close>; two such scores differ by less than \<open>1e9 - 104\<close>.
  \<open>dec_scores_bounded\<close> states this for every layer of the batch run from the input
  \<open>x\<close>, and \<open>batch_kv\<close> lists the key-value projections of the layers of that run.
\<close>

definition SCORE_BOUND :: real where
  "SCORE_BOUND = 499999948"

definition self_scores_bounded :: "multi_head_attn residual_layer_wrapper \<Rightarrow> tensor3 \<Rightarrow> bool" where
  "self_scores_bounded w x =
     (let a = wrapped_layer w;
          c = dense_call (combined_conv a) (preprocess w x);
          q = map (map (take (key_depth a))) c;
          k = map (map (\<lambda>r. take (key_depth a) (drop (key_depth a) r))) c
      in list_all (\<lambda>(qb, kb). list_all (list_all (list_all (\<lambda>s. \<bar>s\<bar> < SCORE_BOUND)))
                                (attn_scores a qb kb))
           (zip q k))"

fun dec_scores_bounded ::
  "rand_src \<Rightarrow> transformer \<Rightarrow> mask \<Rightarrow> mask \<Rightarrow> tensor3 \<Rightarrow> nat list \<Rightarrow> tensor3 \<Rightarrow> bool" where
  "dec_scores_bounded rnd t dm em e_out [] x = True"
| "dec_scores_bounded rnd t dm em e_out (layer # ls) x =
     (self_scores_bounded (dec_attn t ! layer) x
      \<and> (case dec_layers_batch False rnd t dm em e_out [layer] x of
            Inl e \<Rightarrow> True
          | Inr x1 \<Rightarrow> dec_scores_bounded rnd t dm em e_out ls x1))"

fun batch_kv ::
  "rand_src \<Rightarrow> transformer \<Rightarrow> mask \<Rightarrow> mask \<Rightarrow> tensor3 \<Rightarrow> nat list \<Rightarrow> tensor3
     \<Rightarrow> tensor3 list" where
  "batch_kv rnd t dm em e_out [] x = []"
| "batch_kv rnd t dm em e_out (layer # ls) x =
     dense_call (kv_conv (wrapped_layer (dec_attn t ! layer))) (preprocess (dec_attn t ! layer) x)
       # (case dec_layers_batch False rnd t dm em e_out [layer] x of
            Inl e \<Rightarrow> []
          | Inr x1 \<Rightarrow> batch_kv rnd t dm em e_out ls x1)"

section \<open>An example model\<close>

text \<open>A model of one encoder and one decoder layer, two heads and width four, with
  all weights one, used to instantiate the theorems below.\<close>

definition ex_dense :: "nat \<Rightarrow> nat \<Rightarrow> dense" where
  "ex_dense n_in n_out =
     \<lparr>dense_W = replicate n_in (replicate n_out 1), dense_b = zeros n_out,
      out_size = n_out, activation = (\<lambda>x. x)\<rparr>"

definition ex_attn :: multi_head_attn where
  "ex_attn =
     \<lparr>attn_name = ''attn'', key_depth = 4, value_depth = 4, num_heads = 2,
      attn_dropout = 0, attn_value_dropout = 0, attn_format = ''combined'',
      query_conv = ex_dense 4 4, kv_conv = ex_dense 4 8, combined_conv = ex_dense 4 12,
      out_conv = ex_dense 4 4\<rparr>"

text \<open>An attention unit of one head and depth one, for which the scale of the scores
  is one.\<close>

definition ex_attn_unit :: multi_head_attn where
  "ex_attn_unit =
     \<lparr>attn_name = ''attn'', key_depth = 1, value_depth = 1, num_heads = 1,
      attn_dropout = 0, attn_value_dropout = 0, attn_format = ''combined'',
      query_conv = ex_dense 1 1, kv_conv = ex_dense 1 2, combined_conv = ex_dense 1 3,
      out_conv = ex_dense 1 1\<rparr>"

definition ex_ffn :: ffn where
  "ex_ffn =
     \<lparr>ffn_name = ''ffn'', relu_dropout = 0,
      first_conv = \<lparr>dense_W = replicate 4 (replicate 4 1), dense_b = zeros 4, out_size = 4,
                     activation = (\<lambda>x. max 0 x)\<rparr>,
      second_conv = ex_dense 4 4\<rparr>"

definition ex_wrap :: "'l \<Rightarrow> 'l residual_layer_wrapper" where
  "ex_wrap l =
     \<lparr>rw_name = ''res'', wrapped_layer = l, pre_norm = None,
      post_steps = [Res_dropout, Res_add, Res_norm], post_norm = (\<lambda>v. v),
      rw_dropout = 1 / 10\<rparr>"

definition ex_transformer :: transformer where
  "ex_transformer =
     \<lparr>tr_name = ''mod'', num_layers_enc = 1, num_layers_dec = 1, res_dropout = 1 / 10,
      emb_size = 4, hid_size = 4, rescale_emb = False, dst_reverse = False,
      dst_rand_offset = False, normalize_out = False,
      emb_inp = (\<lambda>w. replicate 4 (real_of_int w)),
      emb_out = (\<lambda>w. replicate 4 (real_of_int w)),
      emb_inp_bias = None,
      enc_attn = [ex_wrap ex_attn], enc_ffn = [ex_wrap ex_ffn], enc_out_norm = (\<lambda>v. v),
      dec_attn = [ex_wrap ex_attn], dec_enc_attn = [ex_wrap ex_attn],
      dec_ffn = [ex_wrap ex_ffn], dec_out_norm = (\<lambda>v. v)\<rparr>"

definition ex_model :: model where
  "ex_model =
     \<lparr>m_name = ''mod'', transformer = ex_transformer, logits = ex_dense 4 9,
      inp_eos = 2, out_eos = 2, infer_length = (\<lambda>x e. map (\<lambda>r. int (length r)) x)\<rparr>"

definition ex_model_rand :: model where
  "ex_model_rand = ex_model\<lparr>transformer := ex_transformer\<lparr>dst_rand_offset := True\<rparr>\<rparr>"

definition ex_rnd :: rand_src where
  "ex_rnd site ix = 0"

definition ex_rnd_half :: rand_src where
  "ex_rnd_half site ix = 1 / 2"

definition ex_var_W :: "string \<Rightarrow> mat" where
  "ex_var_W nm = (if nm = ''query_conv'' then [[1, 2], [3, 4]] else [[5, 6, 7], [8, 9, 10]])"

definition ex_var_b :: "string \<Rightarrow> vec" where
  "ex_var_b nm = (if nm = ''query_conv'' then [1, 1] else [2, 2, 2])"

section \<open>Basic facts\<close>

lemma ebind_Inr [simp]: "ebind (Inr x) f = f x"
  by (simp add: ebind_def)

lemma ebind_Inl [simp]: "ebind (Inl e) f = Inl e"
  by (simp add: ebind_def)

lemma ebind_eq_Inr: "ebind m f = Inr y \<longleftrightarrow> (\<exists>x. m = Inr x \<and> f x = Inr y)"
  by (cases m) simp_all

lemma bcast2_single_right:
  "length ys = 1 \<Longrightarrow> bcast2 f xs ys = map (\<lambda>x. f x (hd ys)) xs"
  by (cases ys; cases xs) (auto simp: bcast2_def)

lemma bcast2_length:
  "length (bcast2 f xs ys) =
     (if length xs = 1 then length ys else if length ys = 1 then length xs
      else min (length xs) (length ys))"
  by (simp add: bcast2_def)

lemma bsel_nth: "i < length xs \<Longrightarrow> bsel xs i = xs ! i"
  by (cases xs) (auto simp: bsel_def)

lemma bcast2_nth:
  assumes "i < length (bcast2 f xs ys)"
  shows "bcast2 f xs ys ! i = f (bsel xs i) (bsel ys i)"
proof (cases "length xs = 1")
  case True
  then have "i < length ys" using assms by (simp add: bcast2_def)
  then show ?thesis using True by (simp add: bcast2_def bsel_nth) (simp add: bsel_def)
next
  case False
  show ?thesis
  proof (cases "length ys = 1")
    case True
    then have "i < length xs" using assms False by (simp add: bcast2_def)
    then show ?thesis using True False by (simp add: bcast2_def bsel_nth) (simp add: bsel_def)
  next
    case ny: False
    then have "i < length xs" "i < length ys" using assms False by (simp_all add: bcast2_def)
    then show ?thesis using ny False by (simp add: bcast2_def bsel_nth)
  qed
qed

section \<open>Positional signal: one step against the full sequence\<close>

lemma positions_num:
  "positions n (Off_num c) None = Inr [map (\<lambda>p. p + c) (map real [0..<n])]"
  by (simp add: positions_def)

lemma positions_tensor1:
  "positions n (Off_tensor1 v) None = Inr (map (\<lambda>c. map (\<lambda>p. p + c) (map real [0..<n])) v)"
  by (simp add: positions_def)

lemma inv_timescales_default:
  "hid div 2 \<noteq> 1 \<Longrightarrow>
     \<exists>ts. inv_timescales hid min_timescale_default max_timescale_default = Inr ts"
  by (simp add: inv_timescales_def min_timescale_default_def max_timescale_default_def Let_def)

lemma timing_signal_num_row:
  assumes "k < N"
  shows "timing_signal 1 hid mn mx (Off_num (real k)) None
         = map_sum id (map (\<lambda>rows. [rows ! k])) (timing_signal N hid mn mx (Off_num 0) None)"
  using assms
  by (cases "inv_timescales hid mn mx") (simp_all add: timing_signal_def positions_num)

lemma timing_signal_tensor1_row:
  assumes "k < N"
  shows "timing_signal 1 hid mn mx (Off_tensor1 [real k]) None
         = map_sum id (map (\<lambda>rows. [rows ! k])) (timing_signal N hid mn mx (Off_num 0) None)"
  using assms
  by (cases "inv_timescales hid mn mx")
     (simp_all add: timing_signal_def positions_num positions_tensor1)

lemma add_timing_signal_row:
  assumes "k < N" and "list_all (\<lambda>s. length s = N) inp"
  shows "add_timing_signal (map (\<lambda>s. [s ! k]) inp) 1 hid mn mx (Off_num (real k)) None
         = map_sum id (map (\<lambda>rows. [rows ! k]))
             (add_timing_signal inp N hid mn mx (Off_num 0) None)"
  using assms
  by (cases "inv_timescales hid mn mx")
     (simp_all add: add_timing_signal_def timing_signal_def positions_num bcast2_single_right
        vadd_def list_all_iff)

text \<open>
  C2.  For every hidden size and every position \<open>k\<close> below the length \<open>N\<close>, the signal
  of a single step at offset \<open>k\<close>, given as a number or as the one-element offset tensor
  that the incremental decoder passes, is row \<open>k\<close> of the signal of a length-\<open>N\<close> input at
  offset 0; and adding the signal to the single row \<open>k\<close> of an input gives row \<open>k\<close> of
  the sum for the whole input.  Where the hidden size makes the timescales undefined,
  both sides are the same failure.
\<close>

theorem C2_timing_signal_single_step:
  assumes "k < N"
  shows "timing_signal 1 hid mn mx (Off_num (real k)) None
           = map_sum id (map (\<lambda>rows. [rows ! k])) (timing_signal N hid mn mx (Off_num 0) None)
       \<and> timing_signal 1 hid mn mx (Off_tensor1 [real k]) None
           = map_sum id (map (\<lambda>rows. [rows ! k])) (timing_signal N hid mn mx (Off_num 0) None)
       \<and> (list_all (\<lambda>s. length s = N) inp \<longrightarrow>
            add_timing_signal (map (\<lambda>s. [s ! k]) inp) 1 hid mn mx (Off_num (real k)) None
              = map_sum id (map (\<lambda>rows. [rows ! k]))
                  (add_timing_signal inp N hid mn mx (Off_num 0) None))"
  using timing_signal_num_row [OF assms] timing_signal_tensor1_row [OF assms]
    add_timing_signal_row [OF assms]
  by blast

theorem C2_timing_signal_single_step_witness:
  "(2::nat) < 3
   \<and> list_all (\<lambda>s. length s = 3) [[[1, 1, 1, 1], [2, 2, 2, 2], [3, 3, 3, 3::real]]]
   \<and> timing_signal 1 4 1 10000 (Off_tensor1 [real (2::nat)]) None
       = map_sum id (map (\<lambda>rows. [rows ! 2])) (timing_signal 3 4 1 10000 (Off_num 0) None)
   \<and> add_timing_signal (map (\<lambda>s. [s ! 2]) [[[1, 1, 1, 1], [2, 2, 2, 2], [3, 3, 3, 3]]])
         1 4 1 10000 (Off_num (real (2::nat))) None
       = map_sum id (map (\<lambda>rows. [rows ! 2]))
           (add_timing_signal [[[1, 1, 1, 1], [2, 2, 2, 2], [3, 3, 3, 3]]]
              3 4 1 10000 (Off_num 0) None)
   \<and> \<not> isl (timing_signal 3 4 1 10000 (Off_num 0) None)"
  using C2_timing_signal_single_step [of 2 3 4 1 10000
          "[[[1, 1, 1, 1], [2, 2, 2, 2], [3, 3, 3, 3]]]"]
  by (simp add: timing_signal_def positions_num inv_timescales_def Let_def)

section \<open>The right shift of the batch decoder\<close>











section \<open>The two projection layouts\<close>

lemma take_vadd: "take n (vadd u v) = vadd (take n u) (take n v)"
  by (simp add: vadd_def take_map take_zip)

lemma drop_vadd: "drop n (vadd u v) = vadd (drop n u) (drop n v)"
  by (simp add: vadd_def drop_map drop_zip)

lemma take_smul: "take n (smul c v) = smul c (take n v)"
  by (simp add: smul_def take_map)

lemma drop_smul: "drop n (smul c v) = smul c (drop n v)"
  by (simp add: smul_def drop_map)

lemma take_vecmat: "take n (vecmat v A m) = vecmat v (map (take n) A) (min n m)"
  by (induction v A m rule: vecmat.induct) (simp_all add: take_vadd take_smul zeros_def)

lemma drop_vecmat: "drop n (vecmat v A m) = vecmat v (map (drop n) A) (m - n)"
  by (induction v A m rule: vecmat.induct) (simp_all add: drop_vadd drop_smul zeros_def)

lemma map_take_append_rows:
  assumes "\<forall>r \<in> set A. length r = n" and "length A = length B"
  shows "map (take n \<circ> (\<lambda>(x, y). x @ y)) (zip A B) = A"
  using assms
proof (induction A arbitrary: B)
  case Nil
  then show ?case by simp
next
  case (Cons a A)
  then show ?case by (cases B) auto
qed

lemma map_drop_append_rows:
  assumes "\<forall>r \<in> set A. length r = n" and "length A = length B"
  shows "map (drop n \<circ> (\<lambda>(x, y). x @ y)) (zip A B) = B"
  using assms
proof (induction A arbitrary: B)
  case Nil
  then show ?case by simp
next
  case (Cons a A)
  then show ?case by (cases B) auto
qed

lemma init_slices:
  assumes "MultiHeadAttn_init var_W var_b nm inp_size kd vd od nh ad avd fmt = Inr a"
    and "fmt = ''use_kv'' \<longrightarrow> use_kv_shapes var_W var_b kd"
  shows "take kd (dense_vec (combined_conv a) v) = dense_vec (query_conv a) v"
    and "drop kd (dense_vec (combined_conv a) v) = dense_vec (kv_conv a) v"
  using assms
  by (auto simp: MultiHeadAttn_init_def Let_def dense_vec_def take_vadd take_vecmat
        drop_vadd drop_vecmat use_kv_shapes_def list_all_iff map_take_append_rows
        map_drop_append_rows min_def split: if_splits)

lemma init_depths:
  assumes "MultiHeadAttn_init var_W var_b nm inp_size kd vd od nh ad avd fmt = Inr a"
  shows "key_depth a = kd" and "value_depth a = vd"
  using assms by (auto simp: MultiHeadAttn_init_def Let_def split: if_splits)

text \<open>
  C8.  For an attention unit built in either format (in the format \<^verbatim>\<open>'use_kv'\<close> with
  variables of the declared shapes) and every input \<open>x\<close>: the three parts of
  \<open>combined_conv x\<close> split at \<open>[key_depth, key_depth, value_depth]\<close> are \<open>query_conv x\<close>
  and the key and value parts of \<open>kv_conv x\<close>; hence the call without key-value input
  computes what the call with \<open>x\<close> as key-value input computes.
\<close>

theorem C8_projection_layouts_agree:
  assumes "MultiHeadAttn_init var_W var_b nm inp_size kd vd od nh ad avd fmt = Inr a"
    and "fmt = ''use_kv'' \<longrightarrow> use_kv_shapes var_W var_b kd"
  shows "map (map (take kd)) (dense_call (combined_conv a) x) = dense_call (query_conv a) x
       \<and> map (map (\<lambda>r. take kd (drop kd r))) (dense_call (combined_conv a) x)
           = map (map (take kd)) (dense_call (kv_conv a) x)
       \<and> map (map (\<lambda>r. take vd (drop (kd * 2) r))) (dense_call (combined_conv a) x)
           = map (map (\<lambda>r. take vd (drop kd r))) (dense_call (kv_conv a) x)
       \<and> MultiHeadAttn_call is_drop rnd a x m None None
           = MultiHeadAttn_call is_drop rnd a x m (Some x) None"
proof -
  have q: "\<And>v. take kd (dense_vec (combined_conv a) v) = dense_vec (query_conv a) v"
    and kv: "\<And>v. drop kd (dense_vec (combined_conv a) v) = dense_vec (kv_conv a) v"
    using init_slices [OF assms] by auto
  have kd: "key_depth a = kd" and vd: "value_depth a = vd"
    using init_depths [OF assms(1)] by auto
  have v2: "take vd (drop (kd * 2) (dense_vec (combined_conv a) v))
              = take vd (drop kd (dense_vec (kv_conv a) v))" for v
  proof -
    have "drop (kd * 2) (dense_vec (combined_conv a) v)
            = drop kd (drop kd (dense_vec (combined_conv a) v))"
      by (simp add: mult_2_right)
    then show ?thesis by (simp add: kv)
  qed
  have c1: "map (map (take kd)) (dense_call (combined_conv a) x) = dense_call (query_conv a) x"
    by (simp add: dense_call_def q)
  have c2: "map (map (\<lambda>r. take kd (drop kd r))) (dense_call (combined_conv a) x)
              = map (map (take kd)) (dense_call (kv_conv a) x)"
    by (simp add: dense_call_def kv)
  have c3: "map (map (\<lambda>r. take vd (drop (kd * 2) r))) (dense_call (combined_conv a) x)
              = map (map (\<lambda>r. take vd (drop kd r))) (dense_call (kv_conv a) x)"
    by (simp add: dense_call_def v2)
  have c4: "MultiHeadAttn_call is_drop rnd a x m None None
              = MultiHeadAttn_call is_drop rnd a x m (Some x) None"
    unfolding MultiHeadAttn_call_def attn_qkv_def using c1 c2 c3 by (simp add: kd vd Let_def)
  show ?thesis using c1 c2 c3 c4 by blast
qed

theorem C8_projection_layouts_agree_witness:
  "use_kv_shapes ex_var_W ex_var_b 2
   \<and> \<not> isl (MultiHeadAttn_init ex_var_W ex_var_b ''a'' 2 2 1 2 1 0 0 ''use_kv'')
   \<and> map (map (take 2))
        (dense_call (combined_conv
           (projr (MultiHeadAttn_init ex_var_W ex_var_b ''a'' 2 2 1 2 1 0 0 ''use_kv'')))
           [[[1, 1]]])
       = dense_call (query_conv
           (projr (MultiHeadAttn_init ex_var_W ex_var_b ''a'' 2 2 1 2 1 0 0 ''use_kv'')))
           [[[1, 1]]]"
proof -
  have s: "use_kv_shapes ex_var_W ex_var_b 2"
    by (simp add: use_kv_shapes_def ex_var_W_def ex_var_b_def)
  have i: "MultiHeadAttn_init ex_var_W ex_var_b ''a'' 2 2 1 2 1 0 0 ''use_kv''
             = Inr (projr (MultiHeadAttn_init ex_var_W ex_var_b ''a'' 2 2 1 2 1 0 0 ''use_kv''))"
    by (simp add: MultiHeadAttn_init_def Let_def)
  have n: "\<not> isl (MultiHeadAttn_init ex_var_W ex_var_b ''a'' 2 2 1 2 1 0 0 ''use_kv'')"
    by (simp add: MultiHeadAttn_init_def Let_def)
  show ?thesis
    using C8_projection_layouts_agree [OF i, of "[[[1, 1]]]"] s n by blast
qed

section \<open>Masking in the attention weights\<close>

lemma softmax_length [simp]: "length (softmax l) = length l"
  by (simp add: softmax_def Let_def)

lemma softmax_nth:
  "j < length l \<Longrightarrow>
     softmax l ! j = float_exp (l ! j - Max (set l))
                       / sum_list (map (\<lambda>x. float_exp (x - Max (set l))) l)"
  by (auto simp: softmax_def Let_def)

lemma softmax_underflow:
  assumes "j < length l" and "i < length l" and "l ! j - l ! i < EXP_UNDERFLOW"
  shows "softmax l ! j = 0"
proof -
  have "l ! i \<le> Max (set l)" using assms(2) by simp
  then have "l ! j - Max (set l) < EXP_UNDERFLOW" using assms(3) by linarith
  then show ?thesis using assms(1) by (simp add: softmax_nth float_exp_def)
qed

lemma bcast2_in_range:
  assumes "i < length (bcast2 f xs ys)"
  shows "length ys = 1 \<or> i < length ys"
  using assms by (auto simp: bcast2_def split: if_splits)

lemma bsel_map:
  assumes "length xs = 1 \<or> i < length xs"
  shows "bsel (map f xs) i = f (bsel xs i)"
proof (cases "length xs = 1")
  case True
  then have "xs \<noteq> []" by auto
  then show ?thesis using True by (simp add: bsel_def hd_map)
next
  case False
  then show ?thesis using assms by (simp add: bsel_def)
qed

lemma attn_logits_entry:
  assumes "h < length (attn_logits a q k m)"
    and "qi < length (attn_logits a q k m ! h)"
    and "j < length (attn_logits a q k m ! h ! qi)"
  shows "attn_logits a q k m ! h ! qi ! j
           = bsel (bsel (attn_scores a q k ! h) qi) j
               + ATTN_BIAS_VALUE * (1 - bsel (bsel m qi) j)"
proof -
  have h: "h < length (attn_scores a q k)" using assms(1) by (simp add: attn_logits_def)
  have row: "attn_logits a q k m ! h
               = bcast2 (bcast2 (+)) (attn_scores a q k ! h) (attn_bias m)"
    using h by (simp add: attn_logits_def)
  have qi: "qi < length (bcast2 (bcast2 (+)) (attn_scores a q k ! h) (attn_bias m))"
    using assms(2) by (simp add: row)
  have r2: "attn_logits a q k m ! h ! qi
              = bcast2 (+) (bsel (attn_scores a q k ! h) qi) (bsel (attn_bias m) qi)"
    by (simp add: row bcast2_nth [OF qi])
  have j: "j < length (bcast2 (+) (bsel (attn_scores a q k ! h) qi) (bsel (attn_bias m) qi))"
    using assms(3) by (simp add: r2)
  have e: "attn_logits a q k m ! h ! qi ! j
             = bsel (bsel (attn_scores a q k ! h) qi) j + bsel (bsel (attn_bias m) qi) j"
    by (simp add: r2 bcast2_nth [OF j])
  have mr: "length m = 1 \<or> qi < length m"
    using bcast2_in_range [OF qi] by (simp add: attn_bias_def)
  have b1: "bsel (attn_bias m) qi = map (\<lambda>x. ATTN_BIAS_VALUE * (1 - x)) (bsel m qi)"
    unfolding attn_bias_def by (rule bsel_map [OF mr])
  have mj: "length (bsel m qi) = 1 \<or> j < length (bsel m qi)"
    using bcast2_in_range [OF j] by (simp add: b1)
  have b2: "bsel (bsel (attn_bias m) qi) j = ATTN_BIAS_VALUE * (1 - bsel (bsel m qi) j)"
    unfolding b1 by (rule bsel_map [OF mj])
  show ?thesis by (simp add: e b2)
qed

lemma attn_scores_len:
  "length (attn_scores a q k) = num_heads a"
  by (simp add: attn_scores_def split_heads_def Let_def)

lemma attn_scores_row_len:
  "h < num_heads a \<Longrightarrow> length (attn_scores a q k ! h) = length q"
  by (simp add: attn_scores_def split_heads_def Let_def)

lemma attn_scores_cell_len:
  "h < num_heads a \<Longrightarrow> qi < length q \<Longrightarrow> length (attn_scores a q k ! h ! qi) = length k"
  by (simp add: attn_scores_def split_heads_def Let_def)

lemma attn_scores_entry:
  assumes "h < num_heads a" and "qi < length q" and "j < length k"
  shows "attn_scores a q k ! h ! qi ! j
           = dot (map (\<lambda>x. x / sqrt (real (key_depth a) / real (num_heads a)))
                    (head_slice (num_heads a) h (q ! qi)))
               (head_slice (num_heads a) h (k ! j))"
  using assms by (simp add: attn_scores_def split_heads_def Let_def)

lemma attn_logits_cell:
  assumes "h < num_heads a" and "qi < length q" and "j < length k"
    and "length m = 1 \<or> length m = length q"
    and "length (bsel m qi) = length k"
  shows "j < length (attn_logits a q k m ! h ! qi)
       \<and> attn_logits a q k m ! h ! qi ! j
           = dot (map (\<lambda>x. x / sqrt (real (key_depth a) / real (num_heads a)))
                    (head_slice (num_heads a) h (q ! qi)))
               (head_slice (num_heads a) h (k ! j))
             + ATTN_BIAS_VALUE * (1 - bsel m qi ! j)"
proof -
  have h: "h < length (attn_logits a q k m)"
    using assms(1) by (simp add: attn_logits_def attn_scores_len)
  have row: "attn_logits a q k m ! h
               = bcast2 (bcast2 (+)) (attn_scores a q k ! h) (attn_bias m)"
    using assms(1) by (simp add: attn_logits_def attn_scores_len)
  have lm: "length (attn_bias m) = length m" by (simp add: attn_bias_def)
  have qi: "qi < length (attn_logits a q k m ! h)"
    using assms(1,2,4) by (auto simp: row bcast2_length attn_scores_row_len lm)
  have sq: "bsel (attn_scores a q k ! h) qi = attn_scores a q k ! h ! qi"
    using assms(1,2) by (simp add: bsel_nth attn_scores_row_len)
  have mr: "length m = 1 \<or> qi < length m" using assms(2,4) by auto
  have b1: "bsel (attn_bias m) qi = map (\<lambda>x. ATTN_BIAS_VALUE * (1 - x)) (bsel m qi)"
    unfolding attn_bias_def by (rule bsel_map [OF mr])
  have r2: "attn_logits a q k m ! h ! qi
              = bcast2 (+) (attn_scores a q k ! h ! qi) (bsel (attn_bias m) qi)"
    using qi by (simp add: row bcast2_nth sq)
  have j: "j < length (attn_logits a q k m ! h ! qi)"
    using assms(1,2,3,5)
    by (simp add: r2 bcast2_length attn_scores_cell_len b1)
  have e: "attn_logits a q k m ! h ! qi ! j
             = bsel (bsel (attn_scores a q k ! h) qi) j
               + ATTN_BIAS_VALUE * (1 - bsel (bsel m qi) j)"
    by (rule attn_logits_entry [OF h qi j])
  have s: "bsel (bsel (attn_scores a q k ! h) qi) j = attn_scores a q k ! h ! qi ! j"
    using assms(1,2,3) by (simp add: sq bsel_nth attn_scores_cell_len)
  have mj: "bsel (bsel m qi) j = bsel m qi ! j"
    using assms(3,5) by (simp add: bsel_nth)
  show ?thesis using j e by (simp add: s mj attn_scores_entry [OF assms(1,2,3)])
qed

lemma MultiHeadAttn_call_weights:
  assumes "attn_qkv a query_inp kv_inp kv = Inr (qs, ks, vs)" and "heads_ok a"
  shows "MultiHeadAttn_call False rnd a query_inp attn_mask kv_inp kv
           = Inr (dense_call (out_conv a)
                   (map (\<lambda>(bi, qb, kb, vb, mb).
                           combine_heads
                             (map2 (\<lambda>ws vs. map (\<lambda>w. vecmat w vs (value_depth a div num_heads a)) ws)
                                (attn_weights a qb kb mb) (split_heads (num_heads a) vb)))
                      (zip [0..<length qs] (zip qs (zip ks (zip vs
                         (expand_mask (length qs) attn_mask)))))))"
  using assms(2)
  unfolding MultiHeadAttn_call_def assms(1) attn_apply_def attn_row_def valid_keep_def
    heads_ok_def Let_def
  by simp

text \<open>
  C5 as stated fails in two ways.  Where every key of a query is masked, the bias is
  the same for all keys and cancels in the softmax: two masked keys of equal score get
  the weight one half each.  And the bias is finite: a masked key whose score exceeds
  that of the unmasked key by \<open>2e9\<close> keeps the logit \<open>1e9\<close> and gets the weight one.
\<close>

theorem C5_masked_weight_not_zero:
  "attn_weights ex_attn_unit [[1]] [[1], [1]] [[0, 0]] = [[[1 / 2, 1 / 2]]]
   \<and> attn_weights ex_attn_unit [[1]] [[0], [2000000000]] [[1, 0]] = [[[0, 1]]]"
  by (simp add: attn_weights_def attn_logits_def attn_scores_def attn_bias_def
        split_heads_def head_slice_def ex_attn_unit_def Let_def dot_def bcast2_def
        softmax_def float_exp_def EXP_UNDERFLOW_def ATTN_BIAS_VALUE_def)

text \<open>
  C5, amended.  In a call of the attention unit (without dropout), the output for the
  batch row \<open>b\<close> is the output projection of the combined heads of the weighted
  values, with the weights \<open>attn_weights\<close> of the row.  For head \<open>h\<close>, query \<open>qi\<close> and
  every key \<open>c\<close>, the logit is the product of the query, scaled by
  \<open>1 / sqrt (key_depth / num_heads)\<close>, with the key, plus \<open>- 1e9 * (1 - mask)\<close>; the
  weights are the softmax of the logits over the key axis.  Where key \<open>j\<close> is masked,
  some key \<open>i\<close> of the same query is not, and the score of \<open>j\<close> exceeds that of \<open>i\<close> by
  less than \<open>1e9 - 104\<close>, the weight of \<open>j\<close> is zero.
\<close>

theorem C5_masked_weight_zero:
  assumes "attn_qkv a query_inp kv_inp kv = Inr (qs, ks, vs)"
    and "heads_ok a"
    and "b < length qs" and "b < length ks" and "b < length vs"
    and "b < length (expand_mask (length qs) attn_mask)"
    and "m = expand_mask (length qs) attn_mask ! b"
    and "length m = 1 \<or> length m = length (qs ! b)"
    and "length (bsel m qi) = length (ks ! b)"
    and "h < num_heads a" and "qi < length (qs ! b)"
    and "j < length (ks ! b)" and "i < length (ks ! b)"
    and "bsel m qi ! j = 0" and "bsel m qi ! i = 1"
    and "dot (map (\<lambda>x. x / sqrt (real (key_depth a) / real (num_heads a)))
                (head_slice (num_heads a) h (qs ! b ! qi)))
           (head_slice (num_heads a) h (ks ! b ! j))
         - dot (map (\<lambda>x. x / sqrt (real (key_depth a) / real (num_heads a)))
                  (head_slice (num_heads a) h (qs ! b ! qi)))
             (head_slice (num_heads a) h (ks ! b ! i))
         < 1000000000 - 104"
  shows "(\<exists>y. MultiHeadAttn_call False rnd a query_inp attn_mask kv_inp kv = Inr y
             \<and> y ! b = map (dense_vec (out_conv a))
                          (combine_heads
                             (map2 (\<lambda>ws vs. map (\<lambda>w. vecmat w vs
                                                          (value_depth a div num_heads a)) ws)
                                (attn_weights a (qs ! b) (ks ! b) m)
                                (split_heads (num_heads a) (vs ! b)))))
       \<and> (\<forall>c < length (ks ! b).
            attn_logits a (qs ! b) (ks ! b) m ! h ! qi ! c
              = dot (map (\<lambda>x. x / sqrt (real (key_depth a) / real (num_heads a)))
                       (head_slice (num_heads a) h (qs ! b ! qi)))
                  (head_slice (num_heads a) h (ks ! b ! c))
                + - 1000000000 * (1 - bsel m qi ! c))
       \<and> attn_weights a (qs ! b) (ks ! b) m ! h ! qi
           = softmax (attn_logits a (qs ! b) (ks ! b) m ! h ! qi)
       \<and> attn_weights a (qs ! b) (ks ! b) m ! h ! qi ! j = 0"
proof -
  let ?q = "qs ! b" and ?k = "ks ! b"
  let ?F = "\<lambda>(bi, qb, kb, vb, mb).
               combine_heads
                 (map2 (\<lambda>ws vs. map (\<lambda>w. vecmat w vs (value_depth a div num_heads a)) ws)
                    (attn_weights a qb kb mb) (split_heads (num_heads a) vb))"
  let ?z = "zip [0..<length qs] (zip qs (zip ks (zip vs (expand_mask (length qs) attn_mask))))"
  have call: "MultiHeadAttn_call False rnd a query_inp attn_mask kv_inp kv
                = Inr (dense_call (out_conv a) (map ?F ?z))"
    by (rule MultiHeadAttn_call_weights [OF assms(1,2)])
  have bz: "b < length ?z" using assms(3,4,5,6) by simp
  have zb: "?z ! b = (b, qs ! b, ks ! b, vs ! b, m)"
    using assms(3,4,5,6) by (simp add: assms(7))
  have yb: "dense_call (out_conv a) (map ?F ?z) ! b
              = map (dense_vec (out_conv a))
                  (combine_heads
                     (map2 (\<lambda>ws vs. map (\<lambda>w. vecmat w vs (value_depth a div num_heads a)) ws)
                        (attn_weights a ?q ?k m) (split_heads (num_heads a) (vs ! b))))"
    using bz by (simp add: dense_call_def zb)
  have c1: "\<exists>y. MultiHeadAttn_call False rnd a query_inp attn_mask kv_inp kv = Inr y
             \<and> y ! b = map (dense_vec (out_conv a))
                          (combine_heads
                             (map2 (\<lambda>ws vs. map (\<lambda>w. vecmat w vs
                                                          (value_depth a div num_heads a)) ws)
                                (attn_weights a ?q ?k m)
                                (split_heads (num_heads a) (vs ! b))))"
    using call yb by blast
  have cell: "\<And>c. c < length ?k \<Longrightarrow>
                 c < length (attn_logits a ?q ?k m ! h ! qi)
               \<and> attn_logits a ?q ?k m ! h ! qi ! c
                   = dot (map (\<lambda>x. x / sqrt (real (key_depth a) / real (num_heads a)))
                            (head_slice (num_heads a) h (?q ! qi)))
                       (head_slice (num_heads a) h (?k ! c))
                     + ATTN_BIAS_VALUE * (1 - bsel m qi ! c)"
    by (rule attn_logits_cell [OF assms(10,11) _ assms(8,9)])
  have c2: "\<forall>c < length ?k.
              attn_logits a ?q ?k m ! h ! qi ! c
                = dot (map (\<lambda>x. x / sqrt (real (key_depth a) / real (num_heads a)))
                         (head_slice (num_heads a) h (?q ! qi)))
                    (head_slice (num_heads a) h (?k ! c))
                  + - 1000000000 * (1 - bsel m qi ! c)"
    using cell by (simp add: ATTN_BIAS_VALUE_def)
  have hl: "h < length (attn_logits a ?q ?k m)"
    using assms(10) by (simp add: attn_logits_def attn_scores_len)
  have ql: "qi < length (attn_logits a ?q ?k m ! h)"
  proof -
    have "length (attn_bias m) = length m" by (simp add: attn_bias_def)
    then show ?thesis
      using assms(8,10,11)
      by (auto simp: attn_logits_def attn_scores_len bcast2_length attn_scores_row_len)
  qed
  have c3: "attn_weights a ?q ?k m ! h ! qi = softmax (attn_logits a ?q ?k m ! h ! qi)"
    using hl ql by (simp add: attn_weights_def)
  have lj: "j < length (attn_logits a ?q ?k m ! h ! qi)" using cell [OF assms(12)] by simp
  have li: "i < length (attn_logits a ?q ?k m ! h ! qi)" using cell [OF assms(13)] by simp
  have d: "attn_logits a ?q ?k m ! h ! qi ! j - attn_logits a ?q ?k m ! h ! qi ! i
             < EXP_UNDERFLOW"
    using cell [OF assms(12)] cell [OF assms(13)] assms(14,15,16)
    by (simp add: ATTN_BIAS_VALUE_def EXP_UNDERFLOW_def)
  have c4: "attn_weights a ?q ?k m ! h ! qi ! j = 0"
    unfolding c3 by (rule softmax_underflow [OF lj li d])
  show ?thesis using c1 c2 c3 c4 by blast
qed

theorem C5_masked_weight_zero_witness:
  "attn_qkv ex_attn_unit [[[1], [2]]] None None
     = Inr ([[[1], [2]]], [[[1], [2]]], [[[1], [2]]])
   \<and> heads_ok ex_attn_unit
   \<and> expand_mask 1 [[[1, 0], [1, 1]]] ! 0 = [[1, 0], [1, 1]]
   \<and> bsel [[1, 0], [1, 1]] 0 ! 1 = (0::real)
   \<and> bsel [[1, 0], [1, 1]] 0 ! 0 = (1::real)
   \<and> attn_logits ex_attn_unit [[1], [2]] [[1], [2]] [[1, 0], [1, 1]] ! 0 ! 0 ! 1
        = 2 - 1000000000
   \<and> attn_weights ex_attn_unit [[1], [2]] [[1], [2]] [[1, 0], [1, 1]] ! 0 ! 0 ! 1 = 0
   \<and> (\<exists>y. MultiHeadAttn_call False ex_rnd ex_attn_unit [[[1], [2]]] [[[1, 0], [1, 1]]]
               None None = Inr y)"
proof -
  have q: "attn_qkv ex_attn_unit [[[1], [2]]] None None
             = Inr ([[[1], [2]]], [[[1], [2]]], [[[1], [2]]])"
    by (simp add: attn_qkv_def ex_attn_unit_def ex_dense_def dense_call_def dense_vec_def
          vadd_def smul_def zeros_def Let_def)
  have ho: "heads_ok ex_attn_unit" by (simp add: heads_ok_def ex_attn_unit_def)
  have em: "expand_mask 1 [[[1, 0], [1, 1]]] ! 0 = [[1, 0], [1, 1::real]]"
    by (simp add: expand_mask_def)
  have m0: "bsel [[1, 0], [1, 1]] 0 ! 1 = (0::real)" by (simp add: bsel_def)
  have m1: "bsel [[1, 0], [1, 1]] 0 ! 0 = (1::real)" by (simp add: bsel_def)
  have th: "(\<exists>y. MultiHeadAttn_call False ex_rnd ex_attn_unit [[[1], [2]]]
                  [[[1, 0], [1, 1]]] None None = Inr y
             \<and> y ! 0 = map (dense_vec (out_conv ex_attn_unit))
                          (combine_heads
                             (map2 (\<lambda>ws vs. map (\<lambda>w. vecmat w vs
                                       (value_depth ex_attn_unit div num_heads ex_attn_unit)) ws)
                                (attn_weights ex_attn_unit ([[[1], [2]]] ! 0) ([[[1], [2]]] ! 0)
                                   [[1, 0], [1, 1]])
                                (split_heads (num_heads ex_attn_unit) ([[[1], [2]]] ! 0)))))
       \<and> (\<forall>c < length ([[[1], [2]]] ! 0 :: mat).
            attn_logits ex_attn_unit ([[[1], [2]]] ! 0) ([[[1], [2]]] ! 0) [[1, 0], [1, 1]]
                ! 0 ! 0 ! c
              = dot (map (\<lambda>x. x / sqrt (real (key_depth ex_attn_unit)
                                          / real (num_heads ex_attn_unit)))
                       (head_slice (num_heads ex_attn_unit) 0 ([[[1], [2]]] ! 0 ! 0)))
                  (head_slice (num_heads ex_attn_unit) 0 ([[[1], [2]]] ! 0 ! c))
                + - 1000000000 * (1 - bsel [[1, 0], [1, 1]] 0 ! c))
       \<and> attn_weights ex_attn_unit ([[[1], [2]]] ! 0) ([[[1], [2]]] ! 0) [[1, 0], [1, 1]] ! 0 ! 0
           = softmax (attn_logits ex_attn_unit ([[[1], [2]]] ! 0) ([[[1], [2]]] ! 0)
                        [[1, 0], [1, 1]] ! 0 ! 0)
       \<and> attn_weights ex_attn_unit ([[[1], [2]]] ! 0) ([[[1], [2]]] ! 0) [[1, 0], [1, 1]]
            ! 0 ! 0 ! 1 = 0"
    by (rule C5_masked_weight_zero [where i = 0 and kv_inp = None and kv = None, OF q ho])
       (simp_all add: expand_mask_def bsel_def ex_attn_unit_def head_slice_def dot_def)
  have lg: "attn_logits ex_attn_unit [[1], [2]] [[1], [2]] [[1, 0], [1, 1]] ! 0 ! 0 ! 1
              = 2 - 1000000000"
    by (simp add: attn_logits_def attn_scores_def attn_bias_def split_heads_def
          head_slice_def ex_attn_unit_def Let_def dot_def bcast2_def ATTN_BIAS_VALUE_def)
  have n0: "([[[1], [2]]] :: tensor3) ! 0 = [[1], [2]]" by simp
  have w: "attn_weights ex_attn_unit [[1], [2]] [[1], [2]] [[1, 0], [1, 1]] ! 0 ! 0 ! 1 = 0"
    using th unfolding n0 by blast
  have y: "\<exists>y. MultiHeadAttn_call False ex_rnd ex_attn_unit [[[1], [2]]] [[[1, 0], [1, 1]]]
                 None None = Inr y"
    using th by blast
  show ?thesis using q ho em m0 m1 lg w y by blast
qed

section \<open>Shapes of the layers\<close>

lemma has_shape_Nil [simp]: "has_shape B n [] \<longleftrightarrow> B = 0"
  by (auto simp: has_shape_def)

lemma has_shape_map [simp]: "has_shape B n (map (map f) x) = has_shape B n x"
  by (simp add: has_shape_def list_all_iff)

lemma has_shape_dense [simp]: "has_shape B n (dense_call d x) = has_shape B n x"
  by (simp add: dense_call_def)

lemma has_shape_replicate [simp]: "has_shape B n (replicate B (replicate n v))"
  by (simp add: has_shape_def list_all_iff)

lemma has_shape_length: "has_shape B n x \<Longrightarrow> length x = B"
  by (simp add: has_shape_def)

lemma has_shape_row: "has_shape B n x \<Longrightarrow> r \<in> set x \<Longrightarrow> length r = n"
  by (simp add: has_shape_def list_all_iff)

lemma has_shape_map2:
  assumes "has_shape B n x" and "has_shape B m y"
    and "\<And>r s. length r = n \<Longrightarrow> length s = m \<Longrightarrow> length (f r s) = p"
  shows "has_shape B p (map2 f x y)"
proof -
  have "length (f r s) = p" if "(r, s) \<in> set (zip x y)" for r s
  proof -
    have "r \<in> set x" and "s \<in> set y"
      using that by (auto dest: set_zip_leftD set_zip_rightD)
    then show ?thesis using assms by (auto simp: has_shape_def list_all_iff)
  qed
  then show ?thesis using assms(1,2) by (auto simp: has_shape_def list_all_iff)
qed

lemma dropout_vec_length [simp]: "length (dropout_vec rnd site keep ix v) = length v"
  by (simp add: dropout_vec_def)

lemma dropout_mat_length [simp]: "length (dropout_mat rnd site keep ix m) = length m"
  by (simp add: dropout_mat_def)

lemma dropout_t3_length [simp]: "length (dropout_t3 rnd site keep ix x) = length x"
  by (simp add: dropout_t3_def)

lemma dropout_t3_rows:
  assumes "r \<in> set (dropout_t3 rnd site keep ix x)"
  shows "\<exists>r0 \<in> set x. length r = length r0"
proof -
  obtain i where i: "i < length x" "r = dropout_mat rnd site keep (ix @ [i]) (x ! i)"
    using assms by (auto simp: dropout_t3_def in_set_conv_nth)
  then show ?thesis by auto
qed

lemma has_shape_dropout_t3 [simp]:
  "has_shape B n (dropout_t3 rnd site keep ix x) = has_shape B n x"
proof
  assume h: "has_shape B n (dropout_t3 rnd site keep ix x)"
  have "length (x ! i) = n" if "i < length x" for i
  proof -
    have "dropout_t3 rnd site keep ix x ! i = dropout_mat rnd site keep (ix @ [i]) (x ! i)"
      using that by (simp add: dropout_t3_def)
    moreover have "dropout_t3 rnd site keep ix x ! i \<in> set (dropout_t3 rnd site keep ix x)"
      using that by simp
    ultimately show ?thesis using h has_shape_row by fastforce
  qed
  then show "has_shape B n x"
    using h by (auto simp: has_shape_def list_all_iff in_set_conv_nth)
next
  assume h: "has_shape B n x"
  then show "has_shape B n (dropout_t3 rnd site keep ix x)"
    using dropout_t3_rows [of _ rnd site keep ix x]
    by (fastforce simp: has_shape_def list_all_iff)
qed

lemma tf_dropout_shape:
  "tf_dropout rnd site keep x = Inr y \<Longrightarrow> has_shape B n y = has_shape B n x"
  by (auto simp: tf_dropout_def split: if_splits)

lemma length_transpose_rect:
  assumes "xs \<noteq> []" and "\<forall>r \<in> set xs. length r = n"
  shows "length (transpose xs) = n"
proof -
  have "foldr (\<lambda>xs. max (length xs)) xs 0 = n" using assms
  proof (induction xs)
    case Nil
    then show ?case by simp
  next
    case (Cons a xs)
    then show ?case by (cases xs) auto
  qed
  then show ?thesis by (simp add: length_transpose)
qed

lemma attn_scores_length [simp]: "length (attn_scores a q k) = num_heads a"
  by (simp add: attn_scores_def split_heads_def Let_def)

lemma attn_scores_rows:
  "s \<in> set (attn_scores a q k) \<Longrightarrow> length s = length q"
  by (auto simp: attn_scores_def split_heads_def Let_def dest!: set_zip_leftD)

lemma attn_weights_length [simp]: "length (attn_weights a q k m) = num_heads a"
  by (simp add: attn_weights_def attn_logits_def)

lemma attn_weights_rows:
  assumes "w \<in> set (attn_weights a q k m)" and "length m = 1 \<or> length m = length q"
  shows "length w = length q"
proof -
  obtain s where s: "s \<in> set (attn_scores a q k)"
    and w: "w = map softmax (bcast2 (bcast2 (+)) s (attn_bias m))"
    using assms(1) by (auto simp: attn_weights_def attn_logits_def)
  have "length s = length q" by (rule attn_scores_rows [OF s])
  then show ?thesis using assms(2) by (auto simp: w bcast2_length attn_bias_def)
qed

lemma attn_row_length:
  assumes "num_heads a \<noteq> 0" and "length m = 1 \<or> length m = length q"
  shows "length (attn_row is_drop rnd a bi q k v m) = length q"
proof -
  define ws where "ws = (if is_drop
      then dropout_t3 rnd (attn_name a @ ''/weights'') (1 - attn_dropout a) [bi]
             (attn_weights a q k m)
      else attn_weights a q k m)"
  define x where "x = map2 (\<lambda>ws vs. map (\<lambda>w. vecmat w vs (value_depth a div num_heads a)) ws)
                        ws (split_heads (num_heads a) v)"
  have lw: "length ws = num_heads a" by (simp add: ws_def)
  have rw0: "\<forall>w \<in> set (attn_weights a q k m). length w = length q"
    using attn_weights_rows [OF _ assms(2)] by blast
  have rw: "\<forall>w \<in> set ws. length w = length q"
  proof (cases is_drop)
    case True
    show ?thesis
    proof
      fix w assume "w \<in> set ws"
      then obtain r0 where "r0 \<in> set (attn_weights a q k m)" "length w = length r0"
        using True dropout_t3_rows by (fastforce simp: ws_def)
      then show "length w = length q" using rw0 by simp
    qed
  next
    case False
    then show ?thesis using rw0 by (simp add: ws_def)
  qed
  have lx: "length x = num_heads a" by (simp add: x_def lw split_heads_def)
  have rx: "\<forall>r \<in> set x. length r = length q"
    using rw by (auto simp: x_def dest!: set_zip_leftD)
  have "x \<noteq> []" using lx assms(1) by auto
  then have "length (transpose x) = length q" using rx by (rule length_transpose_rect)
  then show ?thesis by (simp add: attn_row_def combine_heads_def ws_def x_def Let_def)
qed

lemma attn_rows_shape:
  assumes "has_shape B n q" and "length k = B" and "length v = B" and "mask_ok B n m"
    and "num_heads a \<noteq> 0"
  shows "has_shape B n
           (map (\<lambda>(bi, qb, kb, vb, mb). attn_row is_drop rnd a bi qb kb vb mb)
              (zip [0..<length q] (zip q (zip k (zip v (expand_mask (length q) m))))))"
proof -
  have lq: "length q = B" using assms(1) by (rule has_shape_length)
  have lm: "length (expand_mask B m) = B" using assms(4) by (simp add: mask_ok_def)
  have rows: "length (attn_row is_drop rnd a bi qb kb vb mb) = n"
    if "(bi, qb, kb, vb, mb) \<in> set (zip [0..<B] (zip q (zip k (zip v (expand_mask B m)))))"
    for bi qb kb vb mb
  proof -
    have r1: "(qb, kb, vb, mb) \<in> set (zip q (zip k (zip v (expand_mask B m))))"
      using that by (rule set_zip_rightD)
    then have r2: "(kb, vb, mb) \<in> set (zip k (zip v (expand_mask B m)))"
      by (rule set_zip_rightD)
    then have r3: "(vb, mb) \<in> set (zip v (expand_mask B m))"
      by (rule set_zip_rightD)
    have "qb \<in> set q" and "mb \<in> set (expand_mask B m)"
      using r1 r3 by (auto dest: set_zip_leftD set_zip_rightD)
    then have "length qb = n" and "length mb = 1 \<or> length mb = n"
      using assms(1,4) by (auto simp: has_shape_def mask_ok_def list_all_iff)
    then show ?thesis using attn_row_length [OF assms(5), of mb qb] by simp
  qed
  show ?thesis
    unfolding has_shape_def list_all_iff lq
    using rows by (auto simp: lq lm assms(2,3))
qed

lemma attn_qkv_shape:
  assumes "attn_qkv a x kv_inp kv = Inr (q, k, v)"
    and "has_shape B n x"
    and "\<forall>z. kv_inp = Some z \<longrightarrow> length z = B"
    and "\<forall>z. kv = Some z \<longrightarrow> length z = B"
  shows "has_shape B n q \<and> length k = B \<and> length v = B"
  using assms
  by (cases kv_inp; cases kv)
     (auto simp: attn_qkv_def Let_def has_shape_length dense_call_def)

lemma attn_qkv_succeeds:
  "kv_inp = None \<or> kv = None \<Longrightarrow> \<exists>r. attn_qkv a x kv_inp kv = Inr r"
  by (cases kv_inp; cases kv) (auto simp: attn_qkv_def Let_def)

lemma attn_apply_shape:
  assumes "attn_apply is_drop rnd a m q k v = Inr y"
    and "has_shape B n q" and "length k = B" and "length v = B" and "mask_ok B n m"
  shows "has_shape B n y"
proof -
  have nh: "num_heads a \<noteq> 0"
    using assms(1) by (auto simp: attn_apply_def split: if_splits)
  define cx where "cx = map (\<lambda>(bi, qb, kb, vb, mb). attn_row is_drop rnd a bi qb kb vb mb)
               (zip [0..<length q] (zip q (zip k (zip v (expand_mask (length q) m)))))"
  have scx: "has_shape B n cx"
    unfolding cx_def by (rule attn_rows_shape [OF assms(2,3,4,5) nh])
  obtain c1 where c1: "(if is_drop then tf_dropout rnd (attn_name a @ ''/values'')
                            (1 - attn_value_dropout a) cx else Inr cx) = Inr c1"
    and y: "y = dense_call (out_conv a) c1"
    using assms(1) nh
    by (auto simp: attn_apply_def ebind_eq_Inr Let_def cx_def split: if_splits)
  have "has_shape B n c1"
    using c1 scx tf_dropout_shape by (fastforce split: if_splits)
  then show ?thesis by (simp add: y)
qed

lemma attn_apply_succeeds:
  "heads_ok a \<Longrightarrow> \<exists>y. attn_apply False rnd a m q k v = Inr y"
  by (simp add: attn_apply_def heads_ok_def valid_keep_def Let_def)

lemma attn_apply_heads: "attn_apply is_drop rnd a m q k v = Inr y \<Longrightarrow> heads_ok a"
  by (auto simp: attn_apply_def heads_ok_def split: if_splits)

lemma MultiHeadAttn_call_shape:
  assumes "MultiHeadAttn_call is_drop rnd a x m kv_inp kv = Inr y"
    and "has_shape B n x" and "mask_ok B n m"
    and "\<forall>z. kv_inp = Some z \<longrightarrow> length z = B"
    and "\<forall>z. kv = Some z \<longrightarrow> length z = B"
  shows "has_shape B n y"
proof -
  obtain q k v where qkv: "attn_qkv a x kv_inp kv = Inr (q, k, v)"
    and ap: "attn_apply is_drop rnd a m q k v = Inr y"
    using assms(1) by (auto simp: MultiHeadAttn_call_def ebind_eq_Inr)
  have s: "has_shape B n q \<and> length k = B \<and> length v = B"
    by (rule attn_qkv_shape [OF qkv assms(2,4,5)])
  show ?thesis using attn_apply_shape [OF ap _ _ _ assms(3)] s by blast
qed

lemma MultiHeadAttn_call_succeeds:
  assumes "heads_ok a" and "kv_inp = None \<or> kv = None"
  shows "\<exists>y. MultiHeadAttn_call False rnd a x m kv_inp kv = Inr y"
proof -
  obtain r where r: "attn_qkv a x kv_inp kv = Inr r"
    using attn_qkv_succeeds [OF assms(2)] by blast
  obtain q k v where "r = (q, k, v)" by (cases r) auto
  then show ?thesis
    using r attn_apply_succeeds [OF assms(1)] by (simp add: MultiHeadAttn_call_def)
qed

lemma FFN_call_shape:
  assumes "FFN_call is_drop rnd f x = Inr y"
  shows "has_shape B n y = has_shape B n x"
  using assms tf_dropout_shape [of rnd "ffn_name f" "1 - relu_dropout f" "dense_call (first_conv f) x"]
  by (auto simp: FFN_call_def Let_def ebind_eq_Inr split: if_splits)

lemma FFN_call_succeeds: "\<exists>y. FFN_call False rnd f x = Inr y"
  by (simp add: FFN_call_def Let_def)

lemma postprocess_shape:
  assumes "postprocess is_drop rnd w ss out inp = Inr y"
    and "has_shape B n out" and "has_shape B n inp"
  shows "has_shape B n y"
  using assms
proof (induction ss arbitrary: out)
  case Nil
  then show ?case by simp
next
  case (Cons s ss)
  show ?case
  proof (cases s)
    case Res_dropout
    show ?thesis
    proof (cases is_drop)
      case True
      then obtain o1 where o1: "tf_dropout rnd (rw_name w) (1 - rw_dropout w) out = Inr o1"
        and r: "postprocess is_drop rnd w ss o1 inp = Inr y"
        using Cons.prems(1) Res_dropout by (auto split: sum.splits)
      have "has_shape B n o1" using tf_dropout_shape [OF o1] Cons.prems(2) by simp
      then show ?thesis using Cons.IH [OF r] Cons.prems(3) by simp
    next
      case False
      then show ?thesis using Cons Res_dropout by simp
    qed
  next
    case Res_add
    have "has_shape B n (map2 (map2 vadd) out inp)"
      by (rule has_shape_map2 [OF Cons.prems(2,3)]) simp
    then show ?thesis using Cons Res_add by simp
  next
    case Res_norm
    then show ?thesis using Cons by simp
  qed
qed

lemma postprocess_succeeds: "\<exists>y. postprocess False rnd w ss out inp = Inr y"
proof (induction ss arbitrary: out)
  case Nil
  then show ?case by simp
next
  case (Cons s ss)
  then show ?case by (cases s) simp_all
qed

lemma preprocess_shape [simp]: "has_shape B n (preprocess w x) = has_shape B n x"
  by (simp add: preprocess_def split: option.splits)

lemma preprocess_length [simp]: "length (preprocess w x) = length x"
  by (simp add: preprocess_def split: option.splits)

lemma wrapper_call_shape:
  assumes "wrapper_call is_drop rnd w inner x = Inr y" and "has_shape B n x"
    and "\<And>z. inner (preprocess w x) = Inr z \<Longrightarrow> has_shape B n z"
  shows "has_shape B n y"
proof -
  obtain z where z: "inner (preprocess w x) = Inr z"
    and p: "postprocess is_drop rnd w (post_steps w) z x = Inr y"
    using assms(1) by (auto simp: wrapper_call_def ebind_eq_Inr)
  show ?thesis by (rule postprocess_shape [OF p assms(3) [OF z] assms(2)])
qed

lemma wrapper_call_succeeds:
  assumes "\<exists>z. inner (preprocess w x) = Inr z"
  shows "\<exists>y. wrapper_call False rnd w inner x = Inr y"
  using assms postprocess_succeeds by (auto simp: wrapper_call_def)

lemma wrapper_attn_succeeds:
  assumes "heads_ok a" and "kv_inp = None \<or> kv = None"
  shows "\<exists>y. wrapper_call False rnd w
               (\<lambda>q. MultiHeadAttn_call False rnd a q m kv_inp kv) x = Inr y"
proof -
  obtain z where "MultiHeadAttn_call False rnd a (preprocess w x) m kv_inp kv = Inr z"
    using MultiHeadAttn_call_succeeds [OF assms] by blast
  then show ?thesis using postprocess_succeeds by (simp add: wrapper_call_def)
qed

lemma wrapper_ffn_succeeds:
  "\<exists>y. wrapper_call False rnd w (FFN_call False rnd f) x = Inr y"
proof -
  obtain z where "FFN_call False rnd f (preprocess w x) = Inr z"
    using FFN_call_succeeds by blast
  then show ?thesis using postprocess_succeeds by (simp add: wrapper_call_def)
qed

lemma wrapper_attn_shape:
  assumes "wrapper_call is_drop rnd w
             (\<lambda>q. MultiHeadAttn_call is_drop rnd a q m kv_inp kv) x = Inr y"
    and "has_shape B n x" and "mask_ok B n m"
    and "\<forall>z. kv_inp = Some z \<longrightarrow> length z = B"
    and "\<forall>z. kv = Some z \<longrightarrow> length z = B"
  shows "has_shape B n y \<and> heads_ok a"
proof -
  obtain z where z: "MultiHeadAttn_call is_drop rnd a (preprocess w x) m kv_inp kv = Inr z"
    and p: "postprocess is_drop rnd w (post_steps w) z x = Inr y"
    using assms(1) by (auto simp: wrapper_call_def ebind_eq_Inr)
  have sz: "has_shape B n z"
    by (rule MultiHeadAttn_call_shape [OF z _ assms(3,4,5)]) (simp add: assms(2))
  have h: "heads_ok a"
    using z attn_apply_heads by (auto simp: MultiHeadAttn_call_def ebind_eq_Inr)
  show ?thesis using postprocess_shape [OF p sz assms(2)] h by simp
qed

lemma wrapper_ffn_shape:
  assumes "wrapper_call is_drop rnd w (FFN_call is_drop rnd f) x = Inr y"
    and "has_shape B n x"
  shows "has_shape B n y"
proof -
  obtain z where z: "FFN_call is_drop rnd f (preprocess w x) = Inr z"
    and p: "postprocess is_drop rnd w (post_steps w) z x = Inr y"
    using assms(1) by (auto simp: wrapper_call_def ebind_eq_Inr)
  have sz: "has_shape B n z" using FFN_call_shape [OF z] assms(2) by simp
  show ?thesis by (rule postprocess_shape [OF p sz assms(2)])
qed

lemma ninp_of_shape: "has_shape B n x \<Longrightarrow> x \<noteq> [] \<Longrightarrow> ninp_of x = n"
  by (cases x) (auto simp: ninp_of_def has_shape_def)

lemma has_shape_bcast2:
  assumes "has_shape B n x" and "has_shape B m y"
    and "\<And>r s. length r = n \<Longrightarrow> length s = m \<Longrightarrow> length (f r s) = p"
  shows "has_shape B p (bcast2 f x y)"
proof (cases "length x = 1")
  case True
  then have "x \<noteq> []" by auto
  then have "length (hd x) = n" using assms(1) by (simp add: has_shape_def list_all_iff)
  then show ?thesis
    using True assms(1,2,3) by (auto simp: bcast2_def has_shape_def list_all_iff)
next
  case False
  then have "bcast2 f x y = map2 f x y"
    using assms(1,2) by (auto simp: bcast2_def has_shape_def)
  then show ?thesis using has_shape_map2 [OF assms] by simp
qed

lemma vadd_rows_length: "length r = n \<Longrightarrow> length s = n \<Longrightarrow> length (map2 vadd r s) = n"
  by simp

lemma add_timing_signal_num_shape:
  assumes "add_timing_signal e n' hid mn mx (Off_num c) None = Inr y"
    and "has_shape B n e" and "e \<noteq> [] \<longrightarrow> n' = n"
  shows "has_shape B n y"
proof -
  obtain ts where y: "y = bcast2 (map2 vadd) e
                           [map (signal_row ts hid) (map (\<lambda>p. p + c) (map real [0..<n']))]"
    using assms(1)
    by (auto simp: add_timing_signal_def timing_signal_def positions_num ebind_eq_Inr)
  show ?thesis
    using assms(2,3) unfolding y
    by (auto simp: bcast2_single_right has_shape_def list_all_iff)
qed

lemma add_timing_signal_tensor1_shape:
  assumes "add_timing_signal e 1 hid mn mx (Off_tensor1 offs) None = Inr y"
    and "has_shape B 1 e" and "length offs = B"
  shows "has_shape B 1 y"
proof -
  obtain ts where y: "y = bcast2 (map2 vadd) e
        (map (map (signal_row ts hid)) (map (\<lambda>c. map (\<lambda>p. p + c) (map real [0..<1])) offs))"
    using assms(1)
    by (auto simp: add_timing_signal_def timing_signal_def positions_tensor1 ebind_eq_Inr)
  have s: "has_shape B 1
        (map (map (signal_row ts hid)) (map (\<lambda>c. map (\<lambda>p. p + c) (map real [0..<1])) offs))"
    using assms(3) by (simp add: has_shape_def list_all_iff)
  show ?thesis unfolding y by (rule has_shape_bcast2 [OF assms(2) s]) simp
qed

lemma add_timing_signal_succeeds:
  assumes "hid div 2 \<noteq> 1" and "off \<noteq> Off_random"
  shows "\<exists>y. add_timing_signal e n hid min_timescale_default max_timescale_default off None
               = Inr y"
proof -
  obtain ts where "inv_timescales hid min_timescale_default max_timescale_default = Inr ts"
    using inv_timescales_default [OF assms(1)] by blast
  then show ?thesis
    using assms(2)
    by (cases off) (simp_all add: add_timing_signal_def timing_signal_def positions_def)
qed

lemma make_enc_attn_mask_ok:
  "length inp_len = B \<Longrightarrow> mask_ok B n (make_enc_attn_mask inp inp_len)"
  by (cases inp_len)
     (auto simp: mask_ok_def expand_mask_def make_enc_attn_mask_def list_all_iff)

lemma enc_layers_shape:
  assumes "enc_layers is_drop rnd t m ls x = Inr y"
    and "has_shape B n x" and "mask_ok B n m"
  shows "has_shape B n y"
  using assms
proof (induction ls arbitrary: x)
  case Nil
  then show ?case by simp
next
  case (Cons layer ls)
  from Cons.prems(1) obtain x1 x2 where
    x1: "wrapper_call is_drop rnd (enc_attn t ! layer)
           (\<lambda>q. MultiHeadAttn_call is_drop rnd (wrapped_layer (enc_attn t ! layer))
                   q m None None) x = Inr x1"
    and x2: "wrapper_call is_drop rnd (enc_ffn t ! layer)
               (FFN_call is_drop rnd (wrapped_layer (enc_ffn t ! layer))) x1 = Inr x2"
    and r: "enc_layers is_drop rnd t m ls x2 = Inr y"
    by (auto split: if_splits sum.splits)
  have s1: "has_shape B n x1"
    using wrapper_attn_shape [OF x1 Cons.prems(2,3)] by simp
  have s2: "has_shape B n x2" by (rule wrapper_ffn_shape [OF x2 s1])
  show ?case by (rule Cons.IH [OF r s2 Cons.prems(3)])
qed

lemma enc_layers_succeeds:
  assumes "\<forall>layer \<in> set ls. layer < length (enc_attn t) \<and> layer < length (enc_ffn t)
             \<and> heads_ok (wrapped_layer (enc_attn t ! layer))"
  shows "\<exists>y. enc_layers False rnd t m ls x = Inr y"
  using assms
proof (induction ls arbitrary: x)
  case Nil
  then show ?case by simp
next
  case (Cons layer ls)
  have h: "heads_ok (wrapped_layer (enc_attn t ! layer))" using Cons.prems by simp
  obtain x1 where x1: "wrapper_call False rnd (enc_attn t ! layer)
           (\<lambda>q. MultiHeadAttn_call False rnd (wrapped_layer (enc_attn t ! layer))
                   q m None None) x = Inr x1"
    using wrapper_attn_succeeds [OF h, of None None] by blast
  obtain x2 where x2: "wrapper_call False rnd (enc_ffn t ! layer)
               (FFN_call False rnd (wrapped_layer (enc_ffn t ! layer))) x1 = Inr x2"
    using wrapper_ffn_succeeds by blast
  obtain y where "enc_layers False rnd t m ls x2 = Inr y"
    using Cons.IH [of x2] Cons.prems by auto
  then show ?case using x1 x2 Cons.prems by simp
qed

lemma Transformer_encode_shape:
  assumes "Transformer_encode rnd t inp inp_len is_train = Inr (e_out, e_mask)"
    and "has_shape B n inp" and "length inp_len = B"
  shows "has_shape B n e_out \<and> e_mask = make_enc_attn_mask inp inp_len"
proof -
  define e where "e = (case emb_inp_bias t of
                         None \<Rightarrow> rescale t (map (map (emb_inp t)) inp)
                       | Some bias \<Rightarrow> map (map (\<lambda>v. vadd v bias))
                                        (rescale t (map (map (emb_inp t)) inp)))"
  have se: "has_shape B n e"
    using assms(2) by (simp add: e_def rescale_def split: option.splits)
  have ne: "e \<noteq> [] \<longrightarrow> ninp_of inp = n"
  proof
    assume "e \<noteq> []"
    then have "B \<noteq> 0" using se by (auto simp: has_shape_def)
    then have "inp \<noteq> []" using assms(2) by (auto simp: has_shape_def)
    then show "ninp_of inp = n" by (rule ninp_of_shape [OF assms(2)])
  qed
  obtain y1 y2 y3 where
    y1: "add_timing_signal e (ninp_of inp) (emb_size t) min_timescale_default
           max_timescale_default (Off_num 0) None = Inr y1"
    and y2: "(if is_train
              then tf_dropout rnd (tr_name t @ ''_enc'') (1 - res_dropout t) y1
              else Inr y1) = Inr y2"
    and y3: "enc_layers is_train rnd t (make_enc_attn_mask inp inp_len)
               [0..<num_layers_enc t] y2 = Inr y3"
    and out: "e_out = (if normalize_out t then map (map (enc_out_norm t)) y3 else y3)"
    and m: "e_mask = make_enc_attn_mask inp inp_len"
    using assms(1)
    by (auto simp: Transformer_encode_def Let_def ebind_eq_Inr e_def)
  have s1: "has_shape B n y1" by (rule add_timing_signal_num_shape [OF y1 se ne])
  have s2: "has_shape B n y2" using y2 s1 tf_dropout_shape by (fastforce split: if_splits)
  have s3: "has_shape B n y3"
    by (rule enc_layers_shape [OF y3 s2 make_enc_attn_mask_ok [OF assms(3)]])
  show ?thesis using s3 out m by simp
qed

lemma Transformer_encode_succeeds:
  assumes "layers_ok t"
  shows "\<exists>r. Transformer_encode rnd t inp inp_len False = Inr r"
proof -
  define e where "e = (case emb_inp_bias t of
                         None \<Rightarrow> rescale t (map (map (emb_inp t)) inp)
                       | Some bias \<Rightarrow> map (map (\<lambda>v. vadd v bias))
                                        (rescale t (map (map (emb_inp t)) inp)))"
  have hd: "emb_size t div 2 \<noteq> 1" using assms by (simp add: layers_ok_def)
  obtain y1 where y1: "add_timing_signal e (ninp_of inp) (emb_size t) min_timescale_default
           max_timescale_default (Off_num 0) None = Inr y1"
    using add_timing_signal_succeeds [OF hd, of "Off_num 0"] by auto
  have "\<forall>layer \<in> set [0..<num_layers_enc t].
          layer < length (enc_attn t) \<and> layer < length (enc_ffn t)
          \<and> heads_ok (wrapped_layer (enc_attn t ! layer))"
    using assms by (auto simp: layers_ok_def list_all_iff)
  then obtain y3 where "enc_layers False rnd t (make_enc_attn_mask inp inp_len)
               [0..<num_layers_enc t] y1 = Inr y3"
    using enc_layers_succeeds by blast
  then show ?thesis using y1 by (simp add: Transformer_encode_def Let_def e_def)
qed

section \<open>The decode step and the caches\<close>

lemma has_shape_append_rows:
  assumes "has_shape B n c" and "has_shape B 1 x"
  shows "has_shape B (Suc n) (map2 (@) c x)"
  by (rule has_shape_map2 [OF assms]) simp

lemma list_all_nth: "list_all P xs \<Longrightarrow> i < length xs \<Longrightarrow> P (xs ! i)"
  by (simp add: list_all_iff)

lemma dec_layers_step_shape:
  assumes "dec_layers_step is_drop rnd t st dm ls (x, nl, nk) = Inr (x', nl', nk')"
    and "has_shape B 1 x" and "state_inv B n k st" and "mask_ok B 1 dm"
    and "list_all (has_shape B (Suc n)) nl" and "list_all (has_shape B (Suc n)) nk"
  shows "has_shape B 1 x' \<and> list_all (has_shape B (Suc n)) nl'
       \<and> list_all (has_shape B (Suc n)) nk'
       \<and> length nl' = length nl + length ls \<and> length nk' = length nk + length ls"
  using assms(1,2,5,6)
proof (induction ls arbitrary: x nl nk)
  case Nil
  then show ?case by simp
next
  case (Cons layer ls)
  define nxt where "nxt = dense_call (kv_conv (wrapped_layer (dec_attn t ! layer)))
                            (preprocess (dec_attn t ! layer) x)"
  define kvs where "kvs = nk @ [map2 (@) (dec_dec_kv st ! layer) nxt]"
  have g: "layer < length (dec_dec_kv st)" "layer < length (dec_enc_kv st)"
    "layer < length (dec_layers st)" "layer \<le> length nk"
    using Cons.prems(1) by (auto split: if_splits)
  from Cons.prems(1) obtain x1 x2 x3 where
    x1: "wrapper_call is_drop rnd (dec_attn t ! layer)
           (\<lambda>q. MultiHeadAttn_call is_drop rnd (wrapped_layer (dec_attn t ! layer))
                   q dm None (Some (kvs ! layer))) x = Inr x1"
    and x2: "wrapper_call is_drop rnd (dec_enc_attn t ! layer)
               (\<lambda>q. MultiHeadAttn_call is_drop rnd (wrapped_layer (dec_enc_attn t ! layer))
                       q (enc_attn_mask st) None (Some (dec_enc_kv st ! layer))) x1 = Inr x2"
    and x3: "wrapper_call is_drop rnd (dec_ffn t ! layer)
               (FFN_call is_drop rnd (wrapped_layer (dec_ffn t ! layer))) x2 = Inr x3"
    and r: "dec_layers_step is_drop rnd t st dm ls
              (x3, nl @ [map2 (@) (dec_layers st ! layer) x3], kvs) = Inr (x', nl', nk')"
    by (auto simp: Let_def kvs_def nxt_def split: if_splits sum.splits)
  have snxt: "has_shape B 1 nxt" using Cons.prems(2) by (simp add: nxt_def)
  have sold: "has_shape B n (dec_dec_kv st ! layer)"
    using assms(3) g(1) by (auto simp: state_inv_def intro: list_all_nth)
  have skvs: "list_all (has_shape B (Suc n)) kvs"
    using Cons.prems(4) has_shape_append_rows [OF sold snxt] by (simp add: kvs_def)
  have "layer < length kvs" using g(4) by (simp add: kvs_def)
  then have lk: "length (kvs ! layer) = B"
    using skvs by (auto dest: list_all_nth simp: has_shape_def)
  have s1: "has_shape B 1 x1"
    using wrapper_attn_shape [OF x1 Cons.prems(2) assms(4)] lk by simp
  have le: "length (dec_enc_kv st ! layer) = B"
    using assms(3) g(2) by (auto simp: state_inv_def dest: list_all_nth)
  have me: "mask_ok B 1 (enc_attn_mask st)" using assms(3) by (simp add: state_inv_def)
  have s2: "has_shape B 1 x2"
    using wrapper_attn_shape [OF x2 s1 me] le by simp
  have s3: "has_shape B 1 x3" by (rule wrapper_ffn_shape [OF x3 s2])
  have sl: "has_shape B n (dec_layers st ! layer)"
    using assms(3) g(3) by (auto simp: state_inv_def intro: list_all_nth)
  have snl: "list_all (has_shape B (Suc n)) (nl @ [map2 (@) (dec_layers st ! layer) x3])"
    using Cons.prems(3) has_shape_append_rows [OF sl s3] by simp
  show ?case using Cons.IH [OF r s3 snl skvs] by (simp add: kvs_def)
qed

lemma dec_layers_step_succeeds:
  assumes "ls = [l..<L]" and "length nk = l"
    and "L \<le> length (dec_attn t)" and "L \<le> length (dec_enc_attn t)"
    and "L \<le> length (dec_ffn t)" and "L \<le> length (dec_dec_kv st)"
    and "L \<le> length (dec_enc_kv st)" and "L \<le> length (dec_layers st)"
    and "list_all (\<lambda>w. heads_ok (wrapped_layer w)) (dec_attn t)"
    and "list_all (\<lambda>w. heads_ok (wrapped_layer w)) (dec_enc_attn t)"
  shows "\<exists>r. dec_layers_step False rnd t st dm ls (x, nl, nk) = Inr r"
  using assms(1,2)
proof (induction ls arbitrary: l x nl nk)
  case Nil
  then show ?case by simp
next
  case (Cons layer ls)
  have ll: "layer = l" "l < L" "ls = [Suc l..<L]"
    using Cons.prems(1) [symmetric] by (auto simp: upt_eq_Cons_conv)
  define nxt where "nxt = dense_call (kv_conv (wrapped_layer (dec_attn t ! layer)))
                            (preprocess (dec_attn t ! layer) x)"
  define kvs where "kvs = nk @ [map2 (@) (dec_dec_kv st ! layer) nxt]"
  have h1: "heads_ok (wrapped_layer (dec_attn t ! layer))"
    using assms(3,9) ll by (auto intro: list_all_nth [where P = "\<lambda>w. heads_ok (wrapped_layer w)"])
  have h2: "heads_ok (wrapped_layer (dec_enc_attn t ! layer))"
    using assms(4,10) ll by (auto intro: list_all_nth [where P = "\<lambda>w. heads_ok (wrapped_layer w)"])
  obtain x1 where x1: "wrapper_call False rnd (dec_attn t ! layer)
           (\<lambda>q. MultiHeadAttn_call False rnd (wrapped_layer (dec_attn t ! layer))
                   q dm None (Some (kvs ! layer))) x = Inr x1"
    using wrapper_attn_succeeds [OF h1, of None "Some (kvs ! layer)"] by blast
  obtain x2 where x2: "wrapper_call False rnd (dec_enc_attn t ! layer)
               (\<lambda>q. MultiHeadAttn_call False rnd (wrapped_layer (dec_enc_attn t ! layer))
                       q (enc_attn_mask st) None (Some (dec_enc_kv st ! layer))) x1 = Inr x2"
    using wrapper_attn_succeeds [OF h2, of None "Some (dec_enc_kv st ! layer)"] by blast
  obtain x3 where x3: "wrapper_call False rnd (dec_ffn t ! layer)
               (FFN_call False rnd (wrapped_layer (dec_ffn t ! layer))) x2 = Inr x3"
    using wrapper_ffn_succeeds by blast
  have "length kvs = Suc l" using Cons.prems(2) by (simp add: kvs_def)
  then obtain r where "dec_layers_step False rnd t st dm ls
              (x3, nl @ [map2 (@) (dec_layers st ! layer) x3], kvs) = Inr r"
    using Cons.IH [OF ll(3)] by blast
  then show ?case
    using x1 x2 x3 ll assms(3-8) Cons.prems(2)
    by (cases r) (simp add: Let_def kvs_def nxt_def)
qed

lemma dec_step_mask_ok:
  assumes "has_shape B k padded" and "k \<noteq> 0"
  shows "mask_ok B 1 (map (\<lambda>r. drop (length r - 1) r) (make_dec_attn_mask padded))"
proof (cases "B = 0")
  case True
  then show ?thesis
    by (simp add: mask_ok_def expand_mask_def make_dec_attn_mask_def Let_def)
next
  case False
  then have "padded \<noteq> []" using assms(1) by (auto simp: has_shape_def)
  then have "ninp_of padded = k" by (rule ninp_of_shape [OF assms(1)])
  then show ?thesis
    using assms(2)
    by (simp add: mask_ok_def expand_mask_def make_dec_attn_mask_def Let_def list_all_iff)
qed

lemma bypass_shape:
  "bypass e_out e_mask x = Inr y \<Longrightarrow> has_shape B n y = has_shape B n x"
  by (auto simp: bypass_def Let_def split: if_splits)

lemma dec_layers_step_lengths:
  assumes "dec_layers_step is_drop rnd t st dm ls (x, nl, nk) = Inr (x', nl', nk')"
  shows "length nl' = length nl + length ls \<and> length nk' = length nk + length ls"
  using assms
proof (induction ls arbitrary: x nl nk)
  case Nil
  then show ?case by simp
next
  case (Cons layer ls)
  from Cons.prems obtain x3 where
    "dec_layers_step is_drop rnd t st dm ls
       (x3, nl @ [map2 (@) (dec_layers st ! layer) x3],
        nk @ [map2 (@) (dec_dec_kv st ! layer)
                (dense_call (kv_conv (wrapped_layer (dec_attn t ! layer)))
                   (preprocess (dec_attn t ! layer) x))]) = Inr (x', nl', nk')"
    by (auto simp: Let_def split: if_splits sum.splits)
  then show ?case using Cons.IH by fastforce
qed

lemma Model_decode_Inr:
  assumes "Model_decode rnd M st words is_train = Inr st'"
  shows "\<exists>d1 d2 d3 x' nl' nk'.
           add_timing_signal (step_emb (transformer M) st words) 1 (emb_size (transformer M))
             min_timescale_default max_timescale_default (Off_tensor1 (offset st)) None
             = Inr d1
         \<and> (if is_train
              then tf_dropout rnd (tr_name (transformer M)) (1 - res_dropout (transformer M)) d1
              else Inr d1) = Inr d2
         \<and> (if num_layers_dec (transformer M) = 0
              then bypass (enc_out st) (enc_attn_mask st) d2 else Inr d2) = Inr d3
         \<and> dec_layers_step is_train rnd (transformer M) st (step_mask st words)
              [0..<num_layers_dec (transformer M)] (d3, [], []) = Inr (x', nl', nk')
         \<and> st' = \<lparr>enc_out = enc_out st, enc_attn_mask = enc_attn_mask st, attnP = attnP st,
                   rdo = map last (if normalize_out (transformer M)
                                   then map (map (dec_out_norm (transformer M))) x' else x'),
                   out_seq = step_seq st words, offset = map (\<lambda>c. c + 1) (offset st),
                   emb = map2 (@) (emb st) d3, dec_layers = nl', dec_enc_kv = dec_enc_kv st,
                   dec_dec_kv = nk'\<rparr>"
  using assms
  unfolding Model_decode_def Let_def
  by (auto simp: ebind_eq_Inr split del: if_split cong: if_cong)

lemma step_seq_shape:
  assumes "has_shape B k (out_seq st)" and "\<forall>ws. words = Some ws \<longrightarrow> length ws = B"
  shows "has_shape B (case words of None \<Rightarrow> k | Some _ \<Rightarrow> Suc k) (step_seq st words)"
proof (cases words)
  case None
  then show ?thesis using assms(1) by (simp add: step_seq_def)
next
  case (Some ws)
  have "length (s @ [x]) = Suc k" if "(s, x) \<in> set (zip (out_seq st) ws)" for s x
    using that assms(1) by (auto simp: has_shape_def list_all_iff dest!: set_zip_leftD)
  then show ?thesis
    using assms Some by (auto simp: step_seq_def has_shape_def list_all_iff)
qed

lemma step_emb_shape:
  assumes "length (rdo st) = B" and "\<forall>ws. words = Some ws \<longrightarrow> length ws = B"
  shows "has_shape B 1 (step_emb t st words)"
  using assms
  by (cases words) (auto simp: step_emb_def has_shape_def list_all_iff rescale_def)

lemma step_mask_ok:
  assumes "has_shape B k (out_seq st)" and "\<forall>ws. words = Some ws \<longrightarrow> length ws = B"
  shows "mask_ok B 1 (step_mask st words)"
proof -
  have "has_shape B (case words of None \<Rightarrow> k | Some _ \<Rightarrow> Suc k) (step_seq st words)"
    by (rule step_seq_shape [OF assms])
  then have "has_shape B (Suc (case words of None \<Rightarrow> k | Some _ \<Rightarrow> Suc k))
               (map (\<lambda>s. s @ [0]) (step_seq st words))"
    by (simp add: has_shape_def list_all_iff)
  then show ?thesis unfolding step_mask_def by (rule dec_step_mask_ok) simp
qed

lemma Model_decode_frame:
  assumes "Model_decode rnd M st words is_train = Inr st'"
  shows "enc_out st' = enc_out st \<and> enc_attn_mask st' = enc_attn_mask st
       \<and> dec_enc_kv st' = dec_enc_kv st \<and> attnP st' = attnP st
       \<and> out_seq st' = step_seq st words \<and> offset st' = map (\<lambda>c. c + 1) (offset st)"
  using Model_decode_Inr [OF assms] by auto

lemma Model_decode_inv:
  assumes "Model_decode rnd M st words is_train = Inr st'"
    and "state_inv B n k st"
    and "\<forall>ws. words = Some ws \<longrightarrow> length ws = B"
  shows "state_inv B (Suc n) (case words of None \<Rightarrow> k | Some _ \<Rightarrow> Suc k) st'
       \<and> length (dec_layers st') = num_layers_dec (transformer M)
       \<and> length (dec_dec_kv st') = num_layers_dec (transformer M)"
proof -
  obtain d1 d2 d3 x' nl' nk' where
    d1: "add_timing_signal (step_emb (transformer M) st words) 1 (emb_size (transformer M))
             min_timescale_default max_timescale_default (Off_tensor1 (offset st)) None
             = Inr d1"
    and d2: "(if is_train
              then tf_dropout rnd (tr_name (transformer M)) (1 - res_dropout (transformer M)) d1
              else Inr d1) = Inr d2"
    and d3: "(if num_layers_dec (transformer M) = 0
              then bypass (enc_out st) (enc_attn_mask st) d2 else Inr d2) = Inr d3"
    and ls: "dec_layers_step is_train rnd (transformer M) st (step_mask st words)
              [0..<num_layers_dec (transformer M)] (d3, [], []) = Inr (x', nl', nk')"
    and st': "st' = \<lparr>enc_out = enc_out st, enc_attn_mask = enc_attn_mask st, attnP = attnP st,
                   rdo = map last (if normalize_out (transformer M)
                                   then map (map (dec_out_norm (transformer M))) x' else x'),
                   out_seq = step_seq st words, offset = map (\<lambda>c. c + 1) (offset st),
                   emb = map2 (@) (emb st) d3, dec_layers = nl', dec_enc_kv = dec_enc_kv st,
                   dec_dec_kv = nk'\<rparr>"
    using Model_decode_Inr [OF assms(1)] by blast
  have inv: "length (rdo st) = B" "length (offset st) = B" "has_shape B k (out_seq st)"
    "has_shape B n (emb st)"
    "list_all (\<lambda>c. length c = B) (dec_enc_kv st)" "mask_ok B 1 (enc_attn_mask st)"
    using assms(2) by (simp_all add: state_inv_def)
  have se: "has_shape B 1 (step_emb (transformer M) st words)"
    by (rule step_emb_shape [OF inv(1) assms(3)])
  have s1: "has_shape B 1 d1" by (rule add_timing_signal_tensor1_shape [OF d1 se inv(2)])
  have s2: "has_shape B 1 d2" using d2 s1 tf_dropout_shape by (fastforce split: if_splits)
  have s3: "has_shape B 1 d3" using d3 s2 bypass_shape by (fastforce split: if_splits)
  have mk: "mask_ok B 1 (step_mask st words)" by (rule step_mask_ok [OF inv(3) assms(3)])
  have r: "has_shape B 1 x' \<and> list_all (has_shape B (Suc n)) nl'
       \<and> list_all (has_shape B (Suc n)) nk'
       \<and> length nl' = num_layers_dec (transformer M)
       \<and> length nk' = num_layers_dec (transformer M)"
    using dec_layers_step_shape [OF ls s3 assms(2) mk] by simp
  have sq: "has_shape B (case words of None \<Rightarrow> k | Some _ \<Rightarrow> Suc k) (step_seq st words)"
    by (rule step_seq_shape [OF inv(3) assms(3)])
  have sm: "has_shape B (Suc n) (map2 (@) (emb st) d3)"
    by (rule has_shape_append_rows [OF inv(4) s3])
  have lr: "length (map last (if normalize_out (transformer M)
                                   then map (map (dec_out_norm (transformer M))) x' else x')) = B"
    using r by (simp add: has_shape_def)
  show ?thesis
    using r sq sm lr inv by (simp add: st' state_inv_def)
qed

lemma Model_decode_succeeds:
  assumes "layers_ok (transformer M)" and "caches_cover L st"
    and "L = num_layers_dec (transformer M)" and "L \<noteq> 0"
  shows "\<exists>st'. Model_decode rnd M st words False = Inr st'"
proof -
  have hd: "emb_size (transformer M) div 2 \<noteq> 1" using assms(1) by (simp add: layers_ok_def)
  obtain d1 where d1:
    "add_timing_signal (step_emb (transformer M) st words) 1 (emb_size (transformer M))
       min_timescale_default max_timescale_default (Off_tensor1 (offset st)) None = Inr d1"
    using add_timing_signal_succeeds [OF hd, of "Off_tensor1 (offset st)"] by auto
  have lo: "L \<le> length (dec_attn (transformer M))"
    "L \<le> length (dec_enc_attn (transformer M))" "L \<le> length (dec_ffn (transformer M))"
    "list_all (\<lambda>w. heads_ok (wrapped_layer w)) (dec_attn (transformer M))"
    "list_all (\<lambda>w. heads_ok (wrapped_layer w)) (dec_enc_attn (transformer M))"
    using assms(1,3) by (simp_all add: layers_ok_def)
  have so: "L \<le> length (dec_dec_kv st)" "L \<le> length (dec_enc_kv st)"
    "L \<le> length (dec_layers st)"
    using assms(2) by (simp_all add: caches_cover_def)
  have nil: "length ([] :: tensor3 list) = 0" by simp
  have "\<exists>r. dec_layers_step False rnd (transformer M) st (step_mask st words)
              [0..<L] (d1, [], []) = Inr r"
    by (rule dec_layers_step_succeeds [OF refl nil lo(1,2,3) so lo(4,5)])
  then obtain x' nl' nk' where
    "dec_layers_step False rnd (transformer M) st (step_mask st words)
       [0..<num_layers_dec (transformer M)] (d1, [], []) = Inr (x', nl', nk')"
    using assms(3) by (metis prod_cases3)
  then show ?thesis
    using d1 assms(3,4)
    unfolding Model_decode_def Let_def by simp
qed

section \<open>Encode and the initial state\<close>

lemma input_layers_length: "length (input_layers t B) = max 1 (num_layers_dec t)"
  by (cases "num_layers_dec t") (simp_all add: input_layers_def)

lemma input_layers_rows: "x \<in> set (input_layers t B) \<Longrightarrow> x = replicate B []"
  by (auto simp: input_layers_def dest: in_set_butlastD)

lemma initial_offset_length [simp]: "length (initial_offset rnd t B) = B"
  by (simp add: initial_offset_def)

lemma initial_state_inv:
  assumes "length e_out = B" and "length inp = B" and "mask_ok B 1 e_mask"
  shows "state_inv B 0 0 (initial_state rnd M inp inp_len e_out e_mask)"
proof -
  have kv: "has_shape B 0 (dense_call (kv_conv (wrapped_layer layer)) (preprocess layer x))"
    if "(layer, x) \<in> set (zip (dec_attn (transformer M)) (input_layers (transformer M) B))"
    for layer x
  proof -
    have "x = replicate B []" using that by (auto dest!: set_zip_rightD input_layers_rows)
    then have "has_shape B 0 x" by (simp add: has_shape_def list_all_iff)
    then show ?thesis by simp
  qed
  show ?thesis
    using assms kv
    by (auto simp: state_inv_def initial_state_def Let_def has_shape_def list_all_iff
          dense_call_def)
qed

lemma Model_encode_Inr:
  assumes "Model_encode rnd M inp inp_len_arg is_train = Inr s"
  shows "\<exists>e_out e_mask.
           Transformer_encode rnd (transformer M) inp
             (case inp_len_arg of None \<Rightarrow> infer_length M inp (inp_eos M) | Some l \<Rightarrow> l) False
             = Inr (e_out, e_mask)
         \<and> Model_decode rnd M
              (initial_state rnd M inp
                 (case inp_len_arg of None \<Rightarrow> infer_length M inp (inp_eos M) | Some l \<Rightarrow> l)
                 e_out e_mask) None is_train = Inr s"
  using assms unfolding Model_encode_def Let_def
  by (auto simp: ebind_eq_Inr split: if_splits)

lemma Model_encode_inv:
  assumes "Model_encode rnd M inp inp_len_arg is_train = Inr s"
    and "has_shape B n inp"
    and "length (case inp_len_arg of None \<Rightarrow> infer_length M inp (inp_eos M) | Some l \<Rightarrow> l) = B"
  shows "state_inv B 1 0 s
       \<and> length (dec_layers s) = num_layers_dec (transformer M)
       \<and> length (dec_dec_kv s) = num_layers_dec (transformer M)
       \<and> has_shape B n (enc_out s)
       \<and> dec_enc_kv s = map (\<lambda>layer. dense_call (kv_conv (wrapped_layer layer)) (enc_out s))
                           (dec_enc_attn (transformer M))
       \<and> out_seq s = replicate B []
       \<and> offset s = map (\<lambda>c. c + 1) (initial_offset rnd (transformer M) B)"
proof -
  define il where
    "il = (case inp_len_arg of None \<Rightarrow> infer_length M inp (inp_eos M) | Some l \<Rightarrow> l)"
  obtain e_out e_mask where
    te: "Transformer_encode rnd (transformer M) inp il False = Inr (e_out, e_mask)"
    and md: "Model_decode rnd M (initial_state rnd M inp il e_out e_mask) None is_train = Inr s"
    using Model_encode_Inr [OF assms(1)] unfolding il_def by blast
  have li: "length inp = B" using assms(2) by (rule has_shape_length)
  have lil: "length il = B" using assms(3) by (simp add: il_def)
  have es: "has_shape B n e_out" and em: "e_mask = make_enc_attn_mask inp il"
    using Transformer_encode_shape [OF te assms(2) lil] by auto
  have mo: "mask_ok B 1 e_mask" unfolding em by (rule make_enc_attn_mask_ok [OF lil])
  have i0: "state_inv B 0 0 (initial_state rnd M inp il e_out e_mask)"
    by (rule initial_state_inv [OF has_shape_length [OF es] li mo])
  have inv: "state_inv B (Suc 0) 0 s
       \<and> length (dec_layers s) = num_layers_dec (transformer M)
       \<and> length (dec_dec_kv s) = num_layers_dec (transformer M)"
    using Model_decode_inv [OF md i0] by simp
  have fr: "enc_out s = e_out" "dec_enc_kv s
              = map (\<lambda>layer. dense_call (kv_conv (wrapped_layer layer)) e_out)
                  (dec_enc_attn (transformer M))"
    "out_seq s = replicate B []"
    "offset s = map (\<lambda>c. c + 1) (initial_offset rnd (transformer M) B)"
    using Model_decode_frame [OF md] li
    by (simp_all add: initial_state_def Let_def step_seq_def)
  show ?thesis using inv fr es by simp
qed

lemma Model_encode_succeeds:
  assumes "layers_ok (transformer M)" and "num_layers_dec (transformer M) \<noteq> 0"
  shows "\<exists>s. Model_encode rnd M inp inp_len_arg False = Inr s"
proof -
  define il where
    "il = (case inp_len_arg of None \<Rightarrow> infer_length M inp (inp_eos M) | Some l \<Rightarrow> l)"
  obtain e_out e_mask where
    te: "Transformer_encode rnd (transformer M) inp il False = Inr (e_out, e_mask)"
    using Transformer_encode_succeeds [OF assms(1)] by (metis surj_pair)
  have la: "length (dec_attn (transformer M)) = num_layers_dec (transformer M)"
    and le: "length (dec_enc_attn (transformer M)) = num_layers_dec (transformer M)"
    using assms(1) by (simp_all add: layers_ok_def)
  have cc: "caches_cover (num_layers_dec (transformer M))
              (initial_state rnd M inp il e_out e_mask)"
    using la le
    by (simp add: caches_cover_def initial_state_def Let_def input_layers_length)
  obtain s where "Model_decode rnd M (initial_state rnd M inp il e_out e_mask) None False
                    = Inr s"
    using Model_decode_succeeds [OF assms(1) cc refl assms(2)] by blast
  then show ?thesis
    using te la unfolding Model_encode_def Let_def il_def [symmetric]
    by (simp add: input_layers_length)
qed

section \<open>Successive decode calls\<close>

lemma decode_calls_inv:
  assumes "decode_calls rnd M st wss is_train = Inr st'"
    and "state_inv B n k st" and "list_all (\<lambda>ws. length ws = B) wss"
  shows "state_inv B (n + length wss) (k + length wss) st'
       \<and> enc_out st' = enc_out st \<and> enc_attn_mask st' = enc_attn_mask st
       \<and> dec_enc_kv st' = dec_enc_kv st
       \<and> (wss \<noteq> [] \<longrightarrow> length (dec_layers st') = num_layers_dec (transformer M)
                         \<and> length (dec_dec_kv st') = num_layers_dec (transformer M))"
  using assms
proof (induction wss arbitrary: st n k)
  case Nil
  then show ?case by simp
next
  case (Cons ws wss)
  obtain st1 where s1: "Model_decode rnd M st (Some ws) is_train = Inr st1"
    and r: "decode_calls rnd M st1 wss is_train = Inr st'"
    using Cons.prems(1) by (auto split: sum.splits)
  have i1: "state_inv B (Suc n) (Suc k) st1
          \<and> length (dec_layers st1) = num_layers_dec (transformer M)
          \<and> length (dec_dec_kv st1) = num_layers_dec (transformer M)"
    using Model_decode_inv [OF s1 Cons.prems(2)] Cons.prems(3) by simp
  have f1: "enc_out st1 = enc_out st" "enc_attn_mask st1 = enc_attn_mask st"
    "dec_enc_kv st1 = dec_enc_kv st"
    using Model_decode_frame [OF s1] by simp_all
  have ih: "state_inv B (Suc n + length wss) (Suc k + length wss) st'
       \<and> enc_out st' = enc_out st1 \<and> enc_attn_mask st' = enc_attn_mask st1
       \<and> dec_enc_kv st' = dec_enc_kv st1
       \<and> (wss \<noteq> [] \<longrightarrow> length (dec_layers st') = num_layers_dec (transformer M)
                         \<and> length (dec_dec_kv st') = num_layers_dec (transformer M))"
  proof -
    have a: "state_inv B (Suc n) (Suc k) st1" using i1 by simp
    have b: "list_all (\<lambda>ws. length ws = B) wss" using Cons.prems(3) by simp
    show ?thesis using Cons.IH [OF r a b] by simp
  qed
  show ?case
  proof (cases wss)
    case Nil
    then have "st' = st1" using r by simp
    then show ?thesis using i1 f1 Nil by simp
  next
    case (Cons a list)
    then show ?thesis using ih f1 by simp
  qed
qed

lemma decode_calls_succeeds:
  assumes "layers_ok (transformer M)" and "num_layers_dec (transformer M) \<noteq> 0"
    and "caches_cover (num_layers_dec (transformer M)) st"
  shows "\<exists>st'. decode_calls rnd M st wss False = Inr st'"
  using assms(3)
proof (induction wss arbitrary: st)
  case Nil
  then show ?case by simp
next
  case (Cons ws wss)
  obtain st1 where s1: "Model_decode rnd M st (Some ws) False = Inr st1"
    using Model_decode_succeeds [OF assms(1) Cons.prems refl assms(2)] by blast
  obtain d1 d2 d3 x' nl' nk' where
    ls: "dec_layers_step False rnd (transformer M) st (step_mask st (Some ws))
              [0..<num_layers_dec (transformer M)] (d3, [], []) = Inr (x', nl', nk')"
    and e: "dec_layers st1 = nl'" "dec_dec_kv st1 = nk'" "dec_enc_kv st1 = dec_enc_kv st"
    using Model_decode_Inr [OF s1] by auto
  have "caches_cover (num_layers_dec (transformer M)) st1"
    using dec_layers_step_lengths [OF ls] e Cons.prems by (simp add: caches_cover_def)
  then obtain st' where "decode_calls rnd M st1 wss False = Inr st'"
    using Cons.IH by blast
  then show ?case using s1 by simp
qed

lemma Model_encode_cross_kv:
  assumes "Model_encode rnd M inp inp_len_arg is_train = Inr s"
  shows "dec_enc_kv s = map (\<lambda>layer. dense_call (kv_conv (wrapped_layer layer)) (enc_out s))
                          (dec_enc_attn (transformer M))"
proof -
  obtain e_out e_mask where
    md: "Model_decode rnd M
           (initial_state rnd M inp
              (case inp_len_arg of None \<Rightarrow> infer_length M inp (inp_eos M) | Some l \<Rightarrow> l)
              e_out e_mask) None is_train = Inr s"
    using Model_encode_Inr [OF assms] by blast
  show ?thesis
    using Model_decode_frame [OF md] by (simp add: initial_state_def Let_def)
qed

lemma decode_calls_frame:
  assumes "decode_calls rnd M st wss is_train = Inr st'"
  shows "enc_out st' = enc_out st \<and> enc_attn_mask st' = enc_attn_mask st
       \<and> dec_enc_kv st' = dec_enc_kv st"
  using assms
proof (induction wss arbitrary: st)
  case Nil
  then show ?case by simp
next
  case (Cons ws wss)
  obtain st1 where s1: "Model_decode rnd M st (Some ws) is_train = Inr st1"
    and r: "decode_calls rnd M st1 wss is_train = Inr st'"
    using Cons.prems by (auto split: sum.splits)
  show ?case using Cons.IH [OF r] Model_decode_frame [OF s1] by simp
qed

section \<open>The example model\<close>

lemma ex_layers_ok: "layers_ok (transformer ex_model)"
  by (simp add: layers_ok_def ex_model_def ex_transformer_def ex_wrap_def ex_attn_def
        heads_ok_def)

lemma ex_rand_layers_ok: "layers_ok (transformer ex_model_rand)"
  by (simp add: layers_ok_def ex_model_rand_def ex_model_def ex_transformer_def ex_wrap_def
        ex_attn_def heads_ok_def)

lemma ex_layers: "num_layers_dec (transformer ex_model) = 1"
  "num_layers_dec (transformer ex_model_rand) = 1"
  by (simp_all add: ex_model_rand_def ex_model_def ex_transformer_def)

lemma ex_inp_shape: "has_shape 1 3 [[5, 8, 2::int]]"
  by (simp add: has_shape_def)

lemma ex_inp_len:
  "length (case None of None \<Rightarrow> infer_length ex_model [[5, 8, 2]] (inp_eos ex_model)
           | Some l \<Rightarrow> l) = 1"
  "length (case None of None \<Rightarrow> infer_length ex_model_rand [[5, 8, 2]] (inp_eos ex_model_rand)
           | Some l \<Rightarrow> l) = 1"
  by (simp_all add: ex_model_rand_def ex_model_def)

lemma ex_encode:
  "Model_encode rnd ex_model [[5, 8, 2]] None False
     = Inr (projr (Model_encode rnd ex_model [[5, 8, 2]] None False))"
  using Model_encode_succeeds [OF ex_layers_ok, of rnd "[[5, 8, 2]]" None]
  by (auto simp: ex_layers)

lemma ex_rand_encode:
  "Model_encode rnd ex_model_rand [[5, 8, 2]] None False
     = Inr (projr (Model_encode rnd ex_model_rand [[5, 8, 2]] None False))"
  using Model_encode_succeeds [OF ex_rand_layers_ok, of rnd "[[5, 8, 2]]" None]
  by (auto simp: ex_layers)

lemma ex_encode_inv:
  "state_inv 1 1 0 (projr (Model_encode rnd ex_model [[5, 8, 2]] None False))"
  "length (dec_dec_kv (projr (Model_encode rnd ex_model [[5, 8, 2]] None False))) = 1"
  "length (dec_layers (projr (Model_encode rnd ex_model [[5, 8, 2]] None False))) = 1"
  using Model_encode_inv [OF ex_encode ex_inp_shape ex_inp_len(1)]
  by (simp_all add: ex_layers)

lemma ex_decode:
  "decode_calls rnd ex_model (projr (Model_encode rnd ex_model [[5, 8, 2]] None False))
     wss False
   = Inr (projr (decode_calls rnd ex_model
                   (projr (Model_encode rnd ex_model [[5, 8, 2]] None False)) wss False))"
proof -
  have "caches_cover (num_layers_dec (transformer ex_model))
          (projr (Model_encode rnd ex_model [[5, 8, 2]] None False))"
    using ex_encode_inv [of rnd] Model_encode_cross_kv [OF ex_encode, of rnd]
    by (simp add: caches_cover_def ex_layers)
       (simp add: ex_model_def ex_transformer_def)
  then obtain st' where
    "decode_calls rnd ex_model (projr (Model_encode rnd ex_model [[5, 8, 2]] None False))
       wss False = Inr st'"
    using decode_calls_succeeds [OF ex_layers_ok, of _ rnd wss] by (auto simp: ex_layers)
  then show ?thesis by simp
qed

lemma singleton_shape:
  assumes "length cs = 1" and "list_all (has_shape 1 n) cs"
  shows "map (map length) cs = [[n]]"
proof -
  obtain c where cs: "cs = [c]" using assms(1) by (cases cs) auto
  then have "has_shape 1 n c" using assms(2) by simp
  then obtain r where "c = [r]" "length r = n"
    by (cases c) (auto simp: has_shape_def)
  then show ?thesis by (simp add: cs)
qed

section \<open>The caches of the incremental decoder\<close>

text \<open>
  C10.  \<^verbatim>\<open>Model.encode\<close> ends with a decode step on a zero embedding.  For a
  rectangular input of \<open>B\<close> rows and a length vector of \<open>B\<close> entries, the state it
  returns has one time-step in the self-attention cache and in the activation cache of
  each of the \<open>num_layers_dec\<close> layers and in the embedding cache, an empty output
  sequence, and the offset 1 when \<^verbatim>\<open>dst_rand_offset\<close> is off.  A decode call with \<open>B\<close>
  words on a state whose caches have one time-step more than its output sequence has
  tokens returns such a state again, with the words appended and one step more.
\<close>

theorem C10_encode_performs_first_step:
  assumes "Model_encode rnd M inp inp_len_arg is_train = Inr s"
    and "has_shape B n inp"
    and "length (case inp_len_arg of None \<Rightarrow> infer_length M inp (inp_eos M) | Some l \<Rightarrow> l) = B"
    and "Model_decode rnd1 M st (Some ws) is_train1 = Inr st1"
    and "state_inv B1 (Suc k) k st" and "length ws = B1"
  shows "list_all (has_shape B 1) (dec_dec_kv s) \<and> list_all (has_shape B 1) (dec_layers s)
       \<and> has_shape B 1 (emb s)
       \<and> length (dec_dec_kv s) = num_layers_dec (transformer M)
       \<and> length (dec_layers s) = num_layers_dec (transformer M)
       \<and> out_seq s = replicate B []
       \<and> (\<not> dst_rand_offset (transformer M) \<longrightarrow> offset s = replicate B 1)
       \<and> state_inv B 1 0 s
       \<and> state_inv B1 (Suc (Suc k)) (Suc k) st1
       \<and> out_seq st1 = map2 (\<lambda>s x. s @ [x]) (out_seq st) ws
       \<and> list_all (has_shape B1 (Suc (Suc k))) (dec_dec_kv st1)
       \<and> list_all (has_shape B1 (Suc (Suc k))) (dec_layers st1)
       \<and> has_shape B1 (Suc k) (out_seq st1)"
proof -
  have e: "state_inv B 1 0 s
       \<and> length (dec_layers s) = num_layers_dec (transformer M)
       \<and> length (dec_dec_kv s) = num_layers_dec (transformer M)
       \<and> out_seq s = replicate B []
       \<and> offset s = map (\<lambda>c. c + 1) (initial_offset rnd (transformer M) B)"
    using Model_encode_inv [OF assms(1,2,3)] by simp
  have o: "\<not> dst_rand_offset (transformer M) \<longrightarrow> offset s = replicate B 1"
    using e by (simp add: initial_offset_def)
  have d: "state_inv B1 (Suc (Suc k)) (Suc k) st1"
    using Model_decode_inv [OF assms(4,5)] assms(6) by simp
  have q: "out_seq st1 = map2 (\<lambda>s x. s @ [x]) (out_seq st) ws"
    using Model_decode_frame [OF assms(4)] by (simp add: step_seq_def)
  have r: "has_shape B 0 (replicate B ([] :: int list))"
    by (simp add: has_shape_def list_all_iff)
  show ?thesis using e o d q r by (simp add: state_inv_def)
qed

theorem C10_encode_performs_first_step_witness:
  "\<not> isl (Model_encode ex_rnd ex_model [[5, 8, 2]] None False)
   \<and> \<not> isl (Model_decode ex_rnd ex_model
              (projr (Model_encode ex_rnd ex_model [[5, 8, 2]] None False)) (Some [7]) False)
   \<and> map (map length) (dec_dec_kv (projr (Model_encode ex_rnd ex_model [[5, 8, 2]] None False)))
       = [[1]]
   \<and> out_seq (projr (Model_encode ex_rnd ex_model [[5, 8, 2]] None False)) = [[]]
   \<and> offset (projr (Model_encode ex_rnd ex_model [[5, 8, 2]] None False)) = [1]
   \<and> out_seq (projr (Model_decode ex_rnd ex_model
                  (projr (Model_encode ex_rnd ex_model [[5, 8, 2]] None False)) (Some [7]) False))
       = [[7]]
   \<and> map (map length)
        (dec_dec_kv (projr (Model_decode ex_rnd ex_model
           (projr (Model_encode ex_rnd ex_model [[5, 8, 2]] None False)) (Some [7]) False)))
       = [[2]]"
proof -
  let ?s = "projr (Model_encode ex_rnd ex_model [[5, 8, 2]] None False)"
  let ?d = "Model_decode ex_rnd ex_model ?s (Some [7]) False"
  have dc: "decode_calls ex_rnd ex_model ?s [[7]] False
              = Inr (projr (decode_calls ex_rnd ex_model ?s [[7]] False))"
    by (rule ex_decode)
  have d: "?d = Inr (projr ?d)"
    using dc by (cases ?d) simp_all
  have i: "state_inv 1 (Suc 0) 0 ?s" using ex_encode_inv(1) [of ex_rnd] by simp
  have nr: "\<not> dst_rand_offset (transformer ex_model)"
    by (simp add: ex_model_def ex_transformer_def)
  have th: "list_all (has_shape 1 1) (dec_dec_kv ?s) \<and> list_all (has_shape 1 1) (dec_layers ?s)
       \<and> has_shape 1 1 (emb ?s)
       \<and> length (dec_dec_kv ?s) = num_layers_dec (transformer ex_model)
       \<and> length (dec_layers ?s) = num_layers_dec (transformer ex_model)
       \<and> out_seq ?s = replicate 1 []
       \<and> (\<not> dst_rand_offset (transformer ex_model) \<longrightarrow> offset ?s = replicate 1 1)
       \<and> state_inv 1 1 0 ?s
       \<and> state_inv 1 (Suc (Suc 0)) (Suc 0) (projr ?d)
       \<and> out_seq (projr ?d) = map2 (\<lambda>s x. s @ [x]) (out_seq ?s) [7]
       \<and> list_all (has_shape 1 (Suc (Suc 0))) (dec_dec_kv (projr ?d))
       \<and> list_all (has_shape 1 (Suc (Suc 0))) (dec_layers (projr ?d))
       \<and> has_shape 1 (Suc 0) (out_seq (projr ?d))"
    by (rule C10_encode_performs_first_step [OF ex_encode ex_inp_shape ex_inp_len(1) d i])
       simp
  have l2: "length (dec_dec_kv (projr ?d)) = 1"
    using Model_decode_inv [OF d i] by (simp add: ex_layers)
  have l1: "length (dec_dec_kv ?s) = 1" by (rule ex_encode_inv(2))
  have s2: "Suc (Suc 0) = 2" by simp
  have t1: "list_all (has_shape 1 1) (dec_dec_kv ?s)"
    and t2: "list_all (has_shape 1 2) (dec_dec_kv (projr ?d))"
    and t3: "out_seq ?s = replicate 1 []"
    and t4: "offset ?s = replicate 1 1"
    and t5: "out_seq (projr ?d) = map2 (\<lambda>s x. s @ [x]) (out_seq ?s) [7]"
    using th [unfolded s2] nr by blast+
  have a: "map (map length) (dec_dec_kv ?s) = [[1]]"
    by (rule singleton_shape [OF l1 t1])
  have b: "map (map length) (dec_dec_kv (projr ?d)) = [[2]]"
    by (rule singleton_shape [OF l2 t2])
  have c: "\<not> isl (Model_encode ex_rnd ex_model [[5, 8, 2]] None False)"
    using ex_encode [of ex_rnd] by (metis sum.disc(2))
  have c2: "\<not> isl ?d" using d by (metis sum.disc(2))
  have o1: "out_seq ?s = [[]]" using t3 by simp
  have o2: "offset ?s = [1]" using t4 by simp
  have o3: "out_seq (projr ?d) = [[7]]" using t5 o1 by simp
  show ?thesis using a b c c2 o1 o2 o3 by blast
qed

text \<open>
  C3 as stated fails for \<open>k = 0\<close>: the state that \<^verbatim>\<open>Model.encode\<close> returns, before
  any further decode call, already has one time-step in the self-attention cache.
\<close>

theorem C3_cache_after_encode_has_one_step:
  "\<not> isl (Model_encode ex_rnd ex_model [[5, 8, 2]] None False)
   \<and> decode_calls ex_rnd ex_model
       (projr (Model_encode ex_rnd ex_model [[5, 8, 2]] None False)) [] False
       = Inr (projr (Model_encode ex_rnd ex_model [[5, 8, 2]] None False))
   \<and> map (map length) (dec_dec_kv (projr (Model_encode ex_rnd ex_model [[5, 8, 2]] None False)))
       = [[1]]
   \<and> map (map length) (dec_layers (projr (Model_encode ex_rnd ex_model [[5, 8, 2]] None False)))
       = [[1]]"
proof -
  let ?s = "projr (Model_encode ex_rnd ex_model [[5, 8, 2]] None False)"
  have i: "state_inv 1 1 0 ?s" "length (dec_dec_kv ?s) = 1" "length (dec_layers ?s) = 1"
    using ex_encode_inv [of ex_rnd] by simp_all
  have a: "map (map length) (dec_dec_kv ?s) = [[1]]"
    using i by (intro singleton_shape) (simp_all add: state_inv_def)
  have b: "map (map length) (dec_layers ?s) = [[1]]"
    using i by (intro singleton_shape) (simp_all add: state_inv_def)
  have c: "\<not> isl (Model_encode ex_rnd ex_model [[5, 8, 2]] None False)"
    using ex_encode [of ex_rnd] by (metis sum.disc(2))
  show ?thesis using a b c by simp
qed

text \<open>
  C3, amended.  After \<^verbatim>\<open>Model.encode\<close> on a rectangular input of \<open>B\<close> rows of length
  \<open>n\<close> and then \<open>k\<close> calls of \<^verbatim>\<open>Model.decode\<close> with \<open>B\<close> words each, every per-layer
  self-attention cache and every per-layer activation cache has exactly \<open>k + 1\<close>
  time-steps, and every per-layer cross-attention cache has \<open>n\<close> time-steps, whatever
  \<open>k\<close> is.
\<close>

theorem C3_cache_growth:
  assumes "Model_encode rnd M inp inp_len_arg is_train = Inr s0"
    and "decode_calls rnd1 M s0 wss is_train1 = Inr s"
    and "has_shape B n inp"
    and "length (case inp_len_arg of None \<Rightarrow> infer_length M inp (inp_eos M) | Some l \<Rightarrow> l) = B"
    and "list_all (\<lambda>ws. length ws = B) wss"
  shows "list_all (has_shape B (length wss + 1)) (dec_dec_kv s)
       \<and> list_all (has_shape B (length wss + 1)) (dec_layers s)
       \<and> length (dec_dec_kv s) = num_layers_dec (transformer M)
       \<and> length (dec_layers s) = num_layers_dec (transformer M)
       \<and> list_all (has_shape B n) (dec_enc_kv s)
       \<and> length (dec_enc_kv s) = length (dec_enc_attn (transformer M))"
proof -
  have e: "state_inv B 1 0 s0"
    "length (dec_layers s0) = num_layers_dec (transformer M)"
    "length (dec_dec_kv s0) = num_layers_dec (transformer M)"
    "has_shape B n (enc_out s0)"
    "dec_enc_kv s0 = map (\<lambda>layer. dense_call (kv_conv (wrapped_layer layer)) (enc_out s0))
                           (dec_enc_attn (transformer M))"
    using Model_encode_inv [OF assms(1,3,4)] by simp_all
  have d: "state_inv B (1 + length wss) (0 + length wss) s"
    "dec_enc_kv s = dec_enc_kv s0"
    "wss \<noteq> [] \<longrightarrow> length (dec_layers s) = num_layers_dec (transformer M)
                    \<and> length (dec_dec_kv s) = num_layers_dec (transformer M)"
    using decode_calls_inv [OF assms(2) e(1) assms(5)] by simp_all
  have l: "length (dec_layers s) = num_layers_dec (transformer M)
         \<and> length (dec_dec_kv s) = num_layers_dec (transformer M)"
  proof (cases wss)
    case Nil
    then have "s = s0" using assms(2) by simp
    then show ?thesis using e by simp
  next
    case (Cons a list)
    then show ?thesis using d(3) by simp
  qed
  have x: "list_all (has_shape B n) (dec_enc_kv s)"
    using e(4) by (simp add: d(2) e(5) list_all_iff)
  show ?thesis using d(1) l x by (simp add: state_inv_def d(2) e(5))
qed

theorem C3_cache_growth_witness:
  "\<not> isl (Model_encode ex_rnd ex_model [[5, 8, 2]] None False)
   \<and> \<not> isl (decode_calls ex_rnd ex_model
              (projr (Model_encode ex_rnd ex_model [[5, 8, 2]] None False)) [[7], [4]] False)
   \<and> map (map length)
        (dec_dec_kv (projr (decode_calls ex_rnd ex_model
           (projr (Model_encode ex_rnd ex_model [[5, 8, 2]] None False)) [[7], [4]] False)))
       = [[3]]
   \<and> map (map length)
        (dec_enc_kv (projr (decode_calls ex_rnd ex_model
           (projr (Model_encode ex_rnd ex_model [[5, 8, 2]] None False)) [[7], [4]] False)))
       = [[3]]"
proof -
  let ?s = "projr (Model_encode ex_rnd ex_model [[5, 8, 2]] None False)"
  let ?d = "decode_calls ex_rnd ex_model ?s [[7], [4]] False"
  have d: "?d = Inr (projr ?d)" by (rule ex_decode)
  have w: "list_all (\<lambda>ws. length ws = 1) [[7], [4::int]]" by simp
  have th: "list_all (has_shape 1 (length [[7], [4::int]] + 1)) (dec_dec_kv (projr ?d))
       \<and> list_all (has_shape 1 (length [[7], [4::int]] + 1)) (dec_layers (projr ?d))
       \<and> length (dec_dec_kv (projr ?d)) = num_layers_dec (transformer ex_model)
       \<and> length (dec_layers (projr ?d)) = num_layers_dec (transformer ex_model)
       \<and> list_all (has_shape 1 3) (dec_enc_kv (projr ?d))
       \<and> length (dec_enc_kv (projr ?d)) = length (dec_enc_attn (transformer ex_model))"
    by (rule C3_cache_growth [OF ex_encode d ex_inp_shape ex_inp_len(1) w])
  have le: "length (dec_enc_attn (transformer ex_model)) = 1"
    by (simp add: ex_model_def ex_transformer_def)
  have n3: "length [[7], [4::int]] + 1 = 3" by simp
  note th3 = th [unfolded n3 ex_layers(1) le]
  have t1: "list_all (has_shape 1 3) (dec_dec_kv (projr ?d))"
    and t2: "length (dec_dec_kv (projr ?d)) = 1"
    and t3: "list_all (has_shape 1 3) (dec_enc_kv (projr ?d))"
    and t4: "length (dec_enc_kv (projr ?d)) = 1"
    using th3 by blast+
  have a: "map (map length) (dec_dec_kv (projr ?d)) = [[3]]"
    by (rule singleton_shape [OF t2 t1])
  have b: "map (map length) (dec_enc_kv (projr ?d)) = [[3]]"
    by (rule singleton_shape [OF t4 t3])
  have c: "\<not> isl (Model_encode ex_rnd ex_model [[5, 8, 2]] None False)"
    using ex_encode [of ex_rnd] by (metis sum.disc(2))
  have c2: "\<not> isl ?d" using d by (metis sum.disc(2))
  show ?thesis using a b c c2 by blast
qed

text \<open>
  C4.  A decode call returns the encoder output, the encoder mask and every per-layer
  cross-attention cache of its input state unchanged, and so does any sequence of
  decode calls; the cross-attention cache of the state that \<^verbatim>\<open>Model.encode\<close> returns
  is, layer by layer, the key-value projection of the encoder output.
\<close>

theorem C4_cross_attention_cache_frozen:
  assumes "Model_decode rnd M st words is_train = Inr st1"
    and "Model_encode rnd1 M inp inp_len_arg is_train1 = Inr s0"
    and "decode_calls rnd2 M s0 wss is_train2 = Inr s"
  shows "enc_out st1 = enc_out st \<and> enc_attn_mask st1 = enc_attn_mask st
       \<and> dec_enc_kv st1 = dec_enc_kv st
       \<and> dec_enc_kv s0 = map (\<lambda>layer. dense_call (kv_conv (wrapped_layer layer)) (enc_out s0))
                            (dec_enc_attn (transformer M))
       \<and> enc_out s = enc_out s0 \<and> enc_attn_mask s = enc_attn_mask s0
       \<and> dec_enc_kv s = dec_enc_kv s0"
  using Model_decode_frame [OF assms(1)] Model_encode_cross_kv [OF assms(2)]
    decode_calls_frame [OF assms(3)]
  by simp

theorem C4_cross_attention_cache_frozen_witness:
  "\<not> isl (Model_encode ex_rnd ex_model [[5, 8, 2]] None False)
   \<and> \<not> isl (Model_decode ex_rnd ex_model
              (projr (Model_encode ex_rnd ex_model [[5, 8, 2]] None False)) (Some [7]) False)
   \<and> dec_enc_kv (projr (Model_decode ex_rnd ex_model
        (projr (Model_encode ex_rnd ex_model [[5, 8, 2]] None False)) (Some [7]) False))
       = dec_enc_kv (projr (Model_encode ex_rnd ex_model [[5, 8, 2]] None False))
   \<and> enc_out (projr (Model_decode ex_rnd ex_model
        (projr (Model_encode ex_rnd ex_model [[5, 8, 2]] None False)) (Some [7]) False))
       = enc_out (projr (Model_encode ex_rnd ex_model [[5, 8, 2]] None False))"
proof -
  let ?s = "projr (Model_encode ex_rnd ex_model [[5, 8, 2]] None False)"
  let ?d = "Model_decode ex_rnd ex_model ?s (Some [7]) False"
  have dc: "decode_calls ex_rnd ex_model ?s [[7]] False
              = Inr (projr (decode_calls ex_rnd ex_model ?s [[7]] False))"
    by (rule ex_decode)
  have d: "?d = Inr (projr ?d)"
    using dc by (cases ?d) simp_all
  have c: "\<not> isl (Model_encode ex_rnd ex_model [[5, 8, 2]] None False)"
    using ex_encode [of ex_rnd] by (metis sum.disc(2))
  have c2: "\<not> isl ?d" using d by (metis sum.disc(2))
  show ?thesis
    using C4_cross_attention_cache_frozen [OF d ex_encode dc] c c2 by simp
qed

section \<open>Determinism at inference\<close>

lemma attn_row_no_rnd:
  "attn_row False rnd1 a bi q k v m = attn_row False rnd2 a bi q k v m"
  by (simp add: attn_row_def)

lemma attn_apply_no_rnd:
  "attn_apply False rnd1 a m q k v = attn_apply False rnd2 a m q k v"
  unfolding attn_apply_def attn_row_no_rnd [of rnd1 _ _ _ _ _ _ rnd2] by simp

lemma MultiHeadAttn_call_no_rnd:
  "MultiHeadAttn_call False rnd1 a x m kv_inp kv = MultiHeadAttn_call False rnd2 a x m kv_inp kv"
  by (simp add: MultiHeadAttn_call_def attn_apply_no_rnd [of rnd1 _ _ _ _ _ rnd2])

lemma FFN_call_no_rnd: "FFN_call False rnd1 f x = FFN_call False rnd2 f x"
  by (simp add: FFN_call_def)

lemma postprocess_no_rnd:
  "postprocess False rnd1 w ss out inp = postprocess False rnd2 w ss out inp"
proof (induction ss arbitrary: out)
  case Nil
  then show ?case by simp
next
  case (Cons s ss)
  then show ?case by (cases s) simp_all
qed

lemma wrapper_call_no_rnd:
  assumes "\<And>q. inner1 q = inner2 q"
  shows "wrapper_call False rnd1 w inner1 x = wrapper_call False rnd2 w inner2 x"
  by (simp add: wrapper_call_def assms postprocess_no_rnd [of rnd1 _ _ _ _ rnd2])

lemma wrapper_attn_no_rnd:
  "wrapper_call False rnd1 w (\<lambda>q. MultiHeadAttn_call False rnd1 a q m kv_inp kv) x
     = wrapper_call False rnd2 w (\<lambda>q. MultiHeadAttn_call False rnd2 a q m kv_inp kv) x"
  by (rule wrapper_call_no_rnd) (rule MultiHeadAttn_call_no_rnd)

lemma wrapper_ffn_no_rnd:
  "wrapper_call False rnd1 w (FFN_call False rnd1 f) x
     = wrapper_call False rnd2 w (FFN_call False rnd2 f) x"
  by (rule wrapper_call_no_rnd) (rule FFN_call_no_rnd)

lemma enc_layers_no_rnd:
  "enc_layers False rnd1 t m ls x = enc_layers False rnd2 t m ls x"
proof (induction ls arbitrary: x)
  case Nil
  then show ?case by simp
next
  case (Cons layer ls)
  show ?case
    by (simp add: wrapper_attn_no_rnd [of rnd1 _ _ _ _ _ _ rnd2]
          wrapper_ffn_no_rnd [of rnd1 _ _ _ rnd2] Cons.IH
        split: sum.splits)
qed

lemma Transformer_encode_no_rnd:
  "Transformer_encode rnd1 t inp inp_len False = Transformer_encode rnd2 t inp inp_len False"
  by (simp add: Transformer_encode_def enc_layers_no_rnd [of rnd1 _ _ _ _ rnd2])

lemma dec_layers_batch_no_rnd:
  "dec_layers_batch False rnd1 t dm em e_out ls x = dec_layers_batch False rnd2 t dm em e_out ls x"
proof (induction ls arbitrary: x)
  case Nil
  then show ?case by simp
next
  case (Cons layer ls)
  show ?case
    by (simp add: wrapper_attn_no_rnd [of rnd1 _ _ _ _ _ _ rnd2]
          wrapper_ffn_no_rnd [of rnd1 _ _ _ rnd2] Cons.IH
        split: sum.splits)
qed

lemma decoder_stack_no_rnd:
  "decoder_stack rnd1 t dm e_out e_mask False = decoder_stack rnd2 t dm e_out e_mask False"
  by (rule ext)
     (simp add: decoder_stack_def dec_layers_batch_no_rnd [of rnd1 _ _ _ _ _ _ rnd2])

lemma Transformer_decode_no_rnd:
  "Transformer_decode rnd1 t out out_len out_reverse e_out e_mask False
     = Transformer_decode rnd2 t out out_len out_reverse e_out e_mask False"
  by (simp add: Transformer_decode_def decoder_stack_no_rnd [of rnd1 _ _ _ _ rnd2])

lemma dec_layers_step_no_rnd:
  "dec_layers_step False rnd1 t st dm ls acc = dec_layers_step False rnd2 t st dm ls acc"
proof (induction ls arbitrary: acc)
  case Nil
  then show ?case by simp
next
  case (Cons layer ls)
  obtain x nl nk where acc: "acc = (x, nl, nk)" by (cases acc) auto
  show ?case
    unfolding acc
    by (simp add: wrapper_attn_no_rnd [of rnd1 _ _ _ _ _ _ rnd2]
          wrapper_ffn_no_rnd [of rnd1 _ _ _ rnd2] Cons.IH Let_def
        split: sum.splits)
qed

lemma Model_decode_no_rnd:
  "Model_decode rnd1 M st words False = Model_decode rnd2 M st words False"
  unfolding Model_decode_def dec_layers_step_no_rnd [of rnd1 _ _ _ _ _ rnd2] by simp

lemma initial_state_no_rnd:
  "\<not> dst_rand_offset (transformer M) \<Longrightarrow>
     initial_state rnd1 M inp inp_len e_out e_mask = initial_state rnd2 M inp inp_len e_out e_mask"
  by (simp add: initial_state_def initial_offset_def Let_def)

lemma Model_encode_no_rnd:
  assumes "\<not> dst_rand_offset (transformer M)"
  shows "Model_encode rnd1 M inp inp_len_arg False = Model_encode rnd2 M inp inp_len_arg False"
  unfolding Model_encode_def Transformer_encode_no_rnd [of rnd1 _ _ _ rnd2]
    initial_state_no_rnd [OF assms, of rnd1 _ _ _ _ rnd2]
    Model_decode_no_rnd [of rnd1 _ _ _ rnd2]
  by (rule refl)

lemma symbolic_score_no_rnd:
  "symbolic_score rnd1 M inp out False = symbolic_score rnd2 M inp out False"
  unfolding symbolic_score_def Transformer_encode_no_rnd [of rnd1 _ _ _ rnd2]
    Transformer_decode_no_rnd [of rnd1 _ _ _ _ _ _ rnd2]
  by (rule refl)

text \<open>
  C9 as stated fails with \<^verbatim>\<open>dst_rand_offset\<close> on: \<^verbatim>\<open>Model.encode\<close> draws the initial
  offset at random whatever \<^verbatim>\<open>is_train\<close> is, so two runs at inference with the same
  parameters and input return states with different offsets.
\<close>

theorem C9_random_offset_at_inference:
  "dst_rand_offset (transformer ex_model_rand)
   \<and> \<not> isl (Model_encode ex_rnd ex_model_rand [[5, 8, 2]] None False)
   \<and> \<not> isl (Model_encode ex_rnd_half ex_model_rand [[5, 8, 2]] None False)
   \<and> offset (projr (Model_encode ex_rnd ex_model_rand [[5, 8, 2]] None False)) = [- 31999]
   \<and> offset (projr (Model_encode ex_rnd_half ex_model_rand [[5, 8, 2]] None False)) = [1]"
proof -
  have r: "dst_rand_offset (transformer ex_model_rand)"
    by (simp add: ex_model_rand_def)
  have a: "offset (projr (Model_encode ex_rnd ex_model_rand [[5, 8, 2]] None False))
             = map (\<lambda>c. c + 1) (initial_offset ex_rnd (transformer ex_model_rand) 1)"
    using Model_encode_inv [OF ex_rand_encode ex_inp_shape ex_inp_len(2)] by simp
  have b: "offset (projr (Model_encode ex_rnd_half ex_model_rand [[5, 8, 2]] None False))
             = map (\<lambda>c. c + 1) (initial_offset ex_rnd_half (transformer ex_model_rand) 1)"
    using Model_encode_inv [OF ex_rand_encode ex_inp_shape ex_inp_len(2)] by simp
  have ia: "initial_offset ex_rnd (transformer ex_model_rand) 1 = [- 32000]"
    using r by (simp add: initial_offset_def random_offset_def BIG_LEN_def ex_rnd_def)
  have ib: "initial_offset ex_rnd_half (transformer ex_model_rand) 1 = [0]"
    using r by (simp add: initial_offset_def random_offset_def BIG_LEN_def ex_rnd_half_def)
  have c: "\<not> isl (Model_encode ex_rnd ex_model_rand [[5, 8, 2]] None False)"
    using ex_rand_encode [of ex_rnd] by (metis sum.disc(2))
  have d: "\<not> isl (Model_encode ex_rnd_half ex_model_rand [[5, 8, 2]] None False)"
    using ex_rand_encode [of ex_rnd_half] by (metis sum.disc(2))
  have a1: "offset (projr (Model_encode ex_rnd ex_model_rand [[5, 8, 2]] None False))
              = [- 31999]"
    unfolding a ia by simp
  have b1: "offset (projr (Model_encode ex_rnd_half ex_model_rand [[5, 8, 2]] None False))
              = [1]"
    unfolding b ib by simp
  show ?thesis using r a1 b1 c d by blast
qed

text \<open>
  C9, amended.  With \<^verbatim>\<open>is_train=False\<close> no dropout is applied and the result does not
  depend on the random source: for \<^verbatim>\<open>Model.decode\<close> in every configuration, and for
  \<^verbatim>\<open>Model.encode\<close> and \<^verbatim>\<open>symbolic_score\<close> in every configuration with
  \<^verbatim>\<open>dst_rand_offset\<close> off.
\<close>

theorem C9_inference_deterministic:
  "Model_decode rnd1 M st words False = Model_decode rnd2 M st words False
   \<and> (\<not> dst_rand_offset (transformer M) \<longrightarrow>
        Model_encode rnd1 M inp inp_len_arg False = Model_encode rnd2 M inp inp_len_arg False
        \<and> symbolic_score rnd1 M inp out False = symbolic_score rnd2 M inp out False)"
  using Model_decode_no_rnd [of rnd1 M st words rnd2]
    Model_encode_no_rnd [of M rnd1 inp inp_len_arg rnd2]
    symbolic_score_no_rnd [of rnd1 M inp out rnd2]
  by blast

theorem C9_inference_deterministic_witness:
  "\<not> dst_rand_offset (transformer ex_model)
   \<and> \<not> isl (Model_encode ex_rnd ex_model [[5, 8, 2]] None False)
   \<and> Model_encode ex_rnd ex_model [[5, 8, 2]] None False
       = Model_encode ex_rnd_half ex_model [[5, 8, 2]] None False
   \<and> symbolic_score ex_rnd ex_model [[5, 8, 2]] [[7, 4, 2]] False
       = symbolic_score ex_rnd_half ex_model [[5, 8, 2]] [[7, 4, 2]] False"
proof -
  have nr: "\<not> dst_rand_offset (transformer ex_model)"
    by (simp add: ex_model_def ex_transformer_def)
  have c: "\<not> isl (Model_encode ex_rnd ex_model [[5, 8, 2]] None False)"
    using ex_encode [of ex_rnd] by (metis sum.disc(2))
  show ?thesis
    using C9_inference_deterministic [of ex_rnd ex_model _ _ ex_rnd_half "[[5, 8, 2]]" None
            "[[7, 4, 2]]"] nr c
    by blast
qed

section \<open>Head-count validation\<close>

text \<open>
  C6 as stated fails on \<^verbatim>\<open>MultiHeadAttn.__init__\<close>: the constructor of the attention
  unit checks only the format name, so a key and value depth of 5 with 2 heads is
  accepted.
\<close>

theorem C6_attn_init_accepts_indivisible:
  "(5::nat) mod 2 \<noteq> 0 \<and>
   \<not> isl (MultiHeadAttn_init ex_var_W ex_var_b ''a'' 4 5 5 4 2 0 0 ''combined'')"
  by (simp add: MultiHeadAttn_init_def Let_def)

text \<open>
  C6, amended: the divisibility check is that of \<^verbatim>\<open>Transformer.__init__\<close>.  When the
  effective key size or the effective value size is not a multiple of the head count
  (or the head count is zero), validation returns an error and no layer is built; with
  no positional argument, an \<^verbatim>\<open>ff_size\<close> that is not a string and a non-zero head
  count, the error is \<^verbatim>\<open>Exception("Bad number of heads")\<close>.
\<close>

theorem C6_transformer_init_bad_heads:
  assumes "arg_num_heads a = 0
           \<or> truthy_or (arg_key_size a) (arg_hid_size a) mod arg_num_heads a \<noteq> 0
           \<or> truthy_or (arg_value_size a) (arg_hid_size a) mod arg_num_heads a \<noteq> 0"
  shows "isl (Transformer_init_sizes py_int a)
         \<and> (arg_n_args a = 0 \<and> (\<forall>s. arg_ff_size a \<noteq> FF_Str s) \<and> arg_num_heads a \<noteq> 0
              \<longrightarrow> Transformer_init_sizes py_int a = Inl (Exception ''Bad number of heads''))"
  using assms
  by (cases "arg_ff_size a")
     (auto simp: Transformer_init_sizes_def ebind_def py_mod_def Let_def
           split: option.splits)

theorem C6_transformer_init_bad_heads_witness:
  "Transformer_init_sizes (\<lambda>_. None)
     \<lparr>arg_n_args = 0, arg_emb_size = None, arg_hid_size = 512, arg_key_size = None,
      arg_value_size = Some 100, arg_ff_size = FF_None, arg_num_heads = 8\<rparr>
   = Inl (Exception ''Bad number of heads'')"
  using C6_transformer_init_bad_heads [of
     "\<lparr>arg_n_args = 0, arg_emb_size = None, arg_hid_size = 512, arg_key_size = None,
       arg_value_size = Some 100, arg_ff_size = FF_None, arg_num_heads = 8\<rparr>" "\<lambda>_. None"]
  by (simp add: truthy_or_def)

end
